theory Spec2Isabelle
  imports Main "HOL-Library.Word"
begin

unbundle bit_operations_syntax

section \<open>Frame header codec (pkg/metadata/metadata.go)\<close>

type_synonym byte = "8 word"
type_synonym uint16 = "16 word"
type_synonym uint32 = "32 word"

text \<open>
  The sentinel errors of the packages, and the errors of the collaborators the endpoint
  passes through: \<open>QueueClosed\<close> and \<open>QueueFull\<close> are the push and pop errors of the
  packet queue, \<open>NetClosed\<close> is what a closed socket answers, \<open>IOError k\<close> is any other
  failure of the socket (a timeout, a reset, an end of file), told apart by \<open>k\<close>.
\<close>

datatype frisbee_error =
    ConnectionClosed
  | InvalidOperation
  | InvalidContentLength
  | InvalidBufferLength
  | QueueClosed
  | QueueFull
  | NetClosed
  | IOError nat

definition IdOffset :: nat where "IdOffset = 0"
definition IdSize :: nat where "IdSize = 2"
definition OperationOffset :: nat where "OperationOffset = IdOffset + IdSize"
definition OperationSize :: nat where "OperationSize = 2"
definition ContentLengthOffset :: nat where "ContentLengthOffset = OperationOffset + OperationSize"
definition ContentLengthSize :: nat where "ContentLengthSize = 4"
definition Size :: nat where "Size = ContentLengthOffset + ContentLengthSize"

record metadata =
  Id_md :: uint16
  Operation :: uint16
  ContentLength :: uint32

text \<open>
  \<open>encoding/binary\<close>'s big-endian accessors. \<open>PutUint16 v\<close> is the two bytes that
  \<open>binary.BigEndian.PutUint16(b, v)\<close> stores in \<open>b[0]\<close>, \<open>b[1]\<close>; \<open>Uint16 b\<close> reads
  them back. The callers always pass slices of exactly two (four) bytes.
\<close>

definition PutUint16 :: "uint16 \<Rightarrow> byte list" where
  "PutUint16 v = [ucast (drop_bit 8 v), ucast v]"

definition Uint16 :: "byte list \<Rightarrow> uint16" where
  "Uint16 b = ucast (b ! 1) OR push_bit 8 (ucast (b ! 0))"

definition PutUint32 :: "uint32 \<Rightarrow> byte list" where
  "PutUint32 v = [ucast (drop_bit 24 v), ucast (drop_bit 16 v), ucast (drop_bit 8 v), ucast v]"

definition Uint32 :: "byte list \<Rightarrow> uint32" where
  "Uint32 b = ucast (b ! 3) OR push_bit 8 (ucast (b ! 2)) OR push_bit 16 (ucast (b ! 1))
                OR push_bit 24 (ucast (b ! 0))"

text \<open>
  \<open>go_slice b lo hi\<close> is the content of the Go slice expression \<open>b[lo:hi]\<close> when it is in
  range; \<open>put_bytes off bs b\<close> is \<open>b\<close> after \<open>bs\<close> has been stored at \<open>b[off:off+len(bs)]\<close>.
\<close>

definition go_slice :: "byte list \<Rightarrow> nat \<Rightarrow> nat \<Rightarrow> byte list" where
  "go_slice b lo hi = take (hi - lo) (drop lo b)"

definition put_bytes :: "nat \<Rightarrow> byte list \<Rightarrow> byte list \<Rightarrow> byte list" where
  "put_bytes off bs b = take off b @ bs @ drop (off + length bs) b"

text \<open>\<open>NewBuffer\<close> allocates the zeroed 8-byte array \<open>Buffer\<close>.\<close>

definition NewBuffer :: "byte list" where
  "NewBuffer = [0, 0, 0, 0, 0, 0, 0, 0]"

text \<open>
  \<open>(*Metadata).Encode\<close>. The deferred \<open>recover\<close> turns a panic into an error; the three
  stores are into fixed ranges of an 8-byte array and cannot panic, so the error is nil.
\<close>

definition Metadata_Encode :: "metadata \<Rightarrow> frisbee_error + byte list" where
  "Metadata_Encode fm =
     (let b = NewBuffer;
          b = put_bytes IdOffset (PutUint16 (Id_md fm)) b;
          b = put_bytes OperationOffset (PutUint16 (Operation fm)) b;
          b = put_bytes ContentLengthOffset (PutUint32 (ContentLength fm)) b
      in Inr b)"

text \<open>\<open>(*Metadata).Decode\<close>, on an 8-byte \<open>Buffer\<close>.\<close>

definition Metadata_Decode :: "byte list \<Rightarrow> metadata" where
  "Metadata_Decode buf =
     \<lparr> Id_md = Uint16 (go_slice buf IdOffset (IdOffset + IdSize)),
       Operation = Uint16 (go_slice buf OperationOffset (OperationOffset + OperationSize)),
       ContentLength =
         Uint32 (go_slice buf ContentLengthOffset (ContentLengthOffset + ContentLengthSize)) \<rparr>"

definition Encode :: "uint16 \<Rightarrow> uint16 \<Rightarrow> uint32 \<Rightarrow> frisbee_error + byte list" where
  "Encode id' operation contentLength =
     Metadata_Encode \<lparr> Id_md = id', Operation = operation, ContentLength = contentLength \<rparr>"

text \<open>
  \<open>Decode\<close>: the length check, then the first 8 bytes of the slice reinterpreted as a
  \<open>Buffer\<close>.
\<close>

definition Decode :: "byte list \<Rightarrow> frisbee_error + metadata" where
  "Decode buf =
     (if length buf < Size then Inl InvalidBufferLength
      else Inr (Metadata_Decode (take Size buf)))"

section \<open>Packets (pkg/packet) and the reserved operations\<close>

record packet =
  Metadata :: metadata
  Content :: "byte list"

text \<open>
  The content buffer of a packet is a growable byte slice: \<open>len(*p.Content)\<close> is
  \<open>length (Content p)\<close> and \<open>p.Content.Write(b)\<close> appends \<open>b\<close> and returns \<open>len(b)\<close>.
\<close>

definition Content_Write :: "byte list \<Rightarrow> packet \<Rightarrow> packet" where
  "Content_Write b p = p\<lparr>Content := Content p @ b\<rparr>"

definition packet_Get :: packet where
  \<comment> \<open>Modelled from the spec: the packet pool (pkg/packet) is outside src/; \<open>acquire\<close>
      returns a packet with a zero header and a content buffer of length 0.\<close>
  "packet_Get = \<lparr> Metadata = \<lparr> Id_md = 0, Operation = 0, ContentLength = 0 \<rparr>, Content = [] \<rparr>"

definition RESERVED9 :: uint16 where
  \<comment> \<open>Modelled from the spec: the operation constants are declared outside src/;
      0..9 are reserved, 10 is PING, 11 is PONG, 12 is STREAM.\<close>
  "RESERVED9 = 9"

definition PING :: uint16 where
  \<comment> \<open>Modelled from the spec: see \<open>RESERVED9\<close>.\<close>
  "PING = 10"

definition PONG :: uint16 where
  \<comment> \<open>Modelled from the spec: see \<open>RESERVED9\<close>.\<close>
  "PONG = 11"

definition STREAM :: uint16 where
  \<comment> \<open>Modelled from the spec: see \<open>RESERVED9\<close>.\<close>
  "STREAM = 12"

definition PINGPacket :: packet where
  \<comment> \<open>Modelled from the spec: the shared PING packet is declared outside src/; a
      header with operation PING and no payload.\<close>
  "PINGPacket = \<lparr> Metadata = \<lparr> Id_md = 0, Operation = PING, ContentLength = 0 \<rparr>, Content = [] \<rparr>"

definition PONGPacket :: packet where
  \<comment> \<open>Modelled from the spec: the shared PONG packet is declared outside src/; a
      header with operation PONG and no payload.\<close>
  "PONGPacket = \<lparr> Metadata = \<lparr> Id_md = 0, Operation = PONG, ContentLength = 0 \<rparr>, Content = [] \<rparr>"

section \<open>The collaborators: socket, buffered writer, packet queue, streams\<close>

text \<open>
  The socket (\<open>net.Conn\<close>). Its read side is a script: the list of what the successive
  \<open>Read\<close> calls will find, each entry the bytes that have arrived and the error, if any,
  that comes with them. \<open>sock_out\<close> collects the bytes \<open>Write\<close> has accepted;
  \<open>sock_wr_err\<close> and \<open>sock_dl_err\<close> are the errors that \<open>Write\<close> and the
  \<open>Set...Deadline\<close> calls return while the connection is broken (\<open>None\<close> while it is
  healthy); \<open>sock_closed\<close> is set by \<open>Close\<close>. Time is not modelled: a deadline that
  expires is a read entry with an error.
\<close>

datatype event = Rd "byte list" "frisbee_error option"

record socket =
  sock_rd :: "event list"
  sock_out :: "byte list"
  sock_wr_err :: "frisbee_error option"
  sock_dl_err :: "frisbee_error option"
  sock_closed :: bool

definition conn_SetDeadline :: "socket \<Rightarrow> frisbee_error option" where
  "conn_SetDeadline s = (if sock_closed s then Some NetClosed else sock_dl_err s)"

definition conn_Write :: "byte list \<Rightarrow> socket \<Rightarrow> frisbee_error option \<times> socket" where
  "conn_Write p s =
     (if sock_closed s then (Some NetClosed, s)
      else case sock_wr_err s of
             Some e \<Rightarrow> (Some e, s)
           | None \<Rightarrow> (None, s\<lparr>sock_out := sock_out s @ p\<rparr>))"

definition conn_Close :: "socket \<Rightarrow> socket" where
  "conn_Close s = s\<lparr>sock_closed := True\<rparr>"

text \<open>
  \<open>conn_Read k s\<close> is \<open>Read\<close> into a slice of length \<open>k\<close>: \<open>None\<close> when the call
  blocks (nothing has arrived), otherwise the bytes stored, the error returned and the
  socket afterwards. A read into an empty slice returns \<open>(0, nil)\<close> at once; a read that
  finds more bytes than fit leaves the rest, and the error, for the next call.
\<close>

definition conn_Read ::
  "nat \<Rightarrow> socket \<Rightarrow> ((byte list \<times> frisbee_error option) \<times> socket) option" where
  "conn_Read k s =
     (if sock_closed s then Some (([], Some NetClosed), s)
      else if k = 0 then Some (([], None), s)
      else case sock_rd s of
             [] \<Rightarrow> None
           | Rd bs e # evs \<Rightarrow>
               if length bs \<le> k then Some ((bs, e), s\<lparr>sock_rd := evs\<rparr>)
               else Some ((take k bs, None), s\<lparr>sock_rd := Rd (drop k bs) e # evs\<rparr>))"

fun rd_size :: "event list \<Rightarrow> nat" where
  "rd_size [] = 0"
| "rd_size (Rd bs e # evs) = Suc (length bs) + rd_size evs"

text \<open>
  \<open>bufio.Writer\<close>, which \<open>BufferedWriter\<close> guards with a mutex: the buffered bytes, the
  size of the buffer and the sticky error. \<open>bufio_Flush\<close> writes the buffer to the
  socket; \<open>bufio_Write\<close> appends to the buffer, flushing when the buffer fills and
  writing a large remainder directly, and does nothing once an error is recorded.
\<close>

record bufio =
  bw_buf :: "byte list"
  bw_size :: nat
  bw_err :: "frisbee_error option"

definition bufio_Flush :: "bufio \<times> socket \<Rightarrow> frisbee_error option \<times> bufio \<times> socket" where
  "bufio_Flush bs =
     (case bs of (b, s) \<Rightarrow>
        (case bw_err b of
           Some e \<Rightarrow> (Some e, b, s)
         | None \<Rightarrow>
             if bw_buf b = [] then (None, b, s)
             else (case conn_Write (bw_buf b) s of
                     (Some e, s') \<Rightarrow> (Some e, b\<lparr>bw_err := Some e\<rparr>, s')
                   | (None, s') \<Rightarrow> (None, b\<lparr>bw_buf := []\<rparr>, s'))))"

definition bufio_Write_direct ::
  "byte list \<Rightarrow> bufio \<times> socket \<Rightarrow> frisbee_error option \<times> bufio \<times> socket" where
  "bufio_Write_direct p bs =
     (case bs of (b, s) \<Rightarrow>
        if length p \<le> bw_size b then (None, b\<lparr>bw_buf := bw_buf b @ p\<rparr>, s)
        else (case conn_Write p s of
                (Some e, s') \<Rightarrow> (Some e, b\<lparr>bw_err := Some e\<rparr>, s')
              | (None, s') \<Rightarrow> (None, b, s')))"

definition bufio_Write ::
  "byte list \<Rightarrow> bufio \<times> socket \<Rightarrow> frisbee_error option \<times> bufio \<times> socket" where
  "bufio_Write p bs =
     (case bs of (b, s) \<Rightarrow>
        (case bw_err b of
           Some e \<Rightarrow> (Some e, b, s)
         | None \<Rightarrow>
             let avail = bw_size b - length (bw_buf b) in
             if length p \<le> avail then (None, b\<lparr>bw_buf := bw_buf b @ p\<rparr>, s)
             else if bw_buf b = [] then bufio_Write_direct p (b, s)
             else (case bufio_Flush (b\<lparr>bw_buf := bw_buf b @ take avail p\<rparr>, s) of
                     (Some e, b', s') \<Rightarrow> (Some e, b', s')
                   | (None, b', s') \<Rightarrow> bufio_Write_direct (drop avail p) (b', s'))))"

text \<open>
  The packet queue (\<open>queue.Circular\<close>, an external library).
\<close>

record queue =
  q_items :: "packet list"
  q_closed :: bool
  q_cap :: nat

definition NewCircular :: "nat \<Rightarrow> queue" where
  \<comment> \<open>Modelled from the spec: the queue is outside src/; a bounded FIFO of the given
      capacity.\<close>
  "NewCircular k = \<lparr> q_items = [], q_closed = False, q_cap = k \<rparr>"

definition queue_Push :: "packet \<Rightarrow> queue \<Rightarrow> frisbee_error + queue" where
  \<comment> \<open>Modelled from the spec: the queue is outside src/; \<open>push\<close> fails if the queue is
      closed, and queue fullness surfaces as a push error.\<close>
  "queue_Push p q =
     (if q_closed q then Inl QueueClosed
      else if q_cap q \<le> length (q_items q) then Inl QueueFull
      else Inr (q\<lparr>q_items := q_items q @ [p]\<rparr>))"

definition queue_Pop :: "queue \<Rightarrow> (frisbee_error + packet \<times> queue) option" where
  \<comment> \<open>Modelled from the spec: the queue is outside src/; \<open>pop\<close> blocks (\<open>None\<close>) until an
      item is available or the queue is closed; \<open>close\<close> unblocks the waiters with an
      error, and what remains after close is returned by \<open>drain\<close>.\<close>
  "queue_Pop q =
     (if q_closed q then Some (Inl QueueClosed)
      else case q_items q of
             [] \<Rightarrow> None
           | p # ps \<Rightarrow> Some (Inr (p, q\<lparr>q_items := ps\<rparr>)))"

definition queue_Close :: "queue \<Rightarrow> queue" where
  \<comment> \<open>Modelled from the spec: the queue is outside src/.\<close>
  "queue_Close q = q\<lparr>q_closed := True\<rparr>"

definition queue_Drain :: "queue \<Rightarrow> packet list \<times> queue" where
  \<comment> \<open>Modelled from the spec: the queue is outside src/; \<open>drain\<close> returns the remaining
      items, in order.\<close>
  "queue_Drain q = (q_items q, q\<lparr>q_items := []\<rparr>)"

text \<open>
  A stream: its id, its queue and its close flag. Streams are objects shared between the
  registry, the read loop and the user, so they live in a store and are named by their
  address.
\<close>

record stream =
  stream_id :: uint16
  stream_queue :: queue
  stream_closed :: bool

definition newStream :: "uint16 \<Rightarrow> nat \<Rightarrow> stream" where
  \<comment> \<open>Modelled from the spec: \<open>newStream\<close> is outside src/; a stream has its id, a
      bounded FIFO of packets and a close flag.\<close>
  "newStream id' k = \<lparr> stream_id = id', stream_queue = NewCircular k, stream_closed = False \<rparr>"

definition stream_close :: "stream \<Rightarrow> stream" where
  \<comment> \<open>Modelled from the spec: \<open>(*Stream).close\<close> is outside src/; it drains the readers
      with a close error, is idempotent, and does not close the endpoint.\<close>
  "stream_close st = st\<lparr>stream_closed := True, stream_queue := queue_Close (stream_queue st)\<rparr>"

section \<open>The endpoint (async.go)\<close>

type_synonym handler = nat

text \<open>
  The fields of \<open>Async\<close>, and with them the parts of the world the endpoint acts on:
  \<open>heap\<close> is the store of the streams (\<open>heap_next\<close> the next free address), \<open>pool\<close>
  lists the packets handed to \<open>packet.Put\<close>, \<open>spawned\<close> lists the handler goroutines
  started with the stream each was given, and \<open>bufsize\<close> is the package constant
  \<open>DefaultBufferSize\<close>, which is declared outside src/ and kept as a parameter.

  \<open>flushCh\<close> is the number of tokens in the channel. \<open>closeCh\<close> and \<open>flushCh\<close> are
  closed by \<open>close\<close> in the step that sets \<open>closed\<close> and nowhere else, so \<open>closed\<close>
  stands for both. The registry \<open>streams\<close> maps a stream id to the address of its stream.
  The wait group, the mutexes and the logger are not modelled: every operation runs as
  one step.
\<close>

record async =
  conn :: socket
  closed :: bool
  writer :: bufio
  flushCh :: nat
  incoming :: queue
  stalePackets :: "packet list"
  error :: "frisbee_error option"
  streams :: "(uint16 \<times> nat) list"
  newStreamHandler :: "handler option"
  heap :: "nat \<Rightarrow> stream"
  heap_next :: nat
  pool :: "packet list"
  spawned :: "(handler \<times> nat) list"
  bufsize :: nat

subsection \<open>buffered_writer.go\<close>

definition Buffered :: "async \<Rightarrow> nat" where
  "Buffered c = length (bw_buf (writer c))"

definition bw_Write :: "byte list \<Rightarrow> async \<Rightarrow> frisbee_error option \<times> async" where
  "bw_Write p c =
     (case bufio_Write p (writer c, conn c) of
        (e, b, s) \<Rightarrow> (e, c\<lparr>writer := b, conn := s\<rparr>))"

definition bw_Flush :: "async \<Rightarrow> frisbee_error option \<times> async" where
  "bw_Flush c =
     (case bufio_Flush (writer c, conn c) of
        (e, b, s) \<Rightarrow> (e, c\<lparr>writer := b, conn := s\<rparr>))"

subsection \<open>The stream registry and the stale packets\<close>

definition Streams_Remove :: "uint16 \<Rightarrow> async \<Rightarrow> async" where
  "Streams_Remove id' c = c\<lparr>streams := filter (\<lambda>kv. fst kv \<noteq> id') (streams c)\<rparr>"

definition Streams_Get :: "uint16 \<Rightarrow> async \<Rightarrow> nat option" where
  "Streams_Get id' c = map_of (streams c) id'"

text \<open>
  \<open>Streams_Create\<close> runs the factory, which allocates the new stream, and stores its
  address under the id, overwriting; \<open>CreateWithCheckOfExistence\<close> runs it only when
  the id has no stream.
\<close>

definition Streams_Create :: "uint16 \<Rightarrow> async \<Rightarrow> nat \<times> async" where
  "Streams_Create id' c =
     (let a = heap_next c in
      (a, c\<lparr>heap := (heap c)(a := newStream id' (bufsize c)),
            heap_next := Suc a,
            streams := (id', a) # filter (\<lambda>kv. fst kv \<noteq> id') (streams c)\<rparr>))"

definition CreateWithCheckOfExistence :: "uint16 \<Rightarrow> async \<Rightarrow> nat \<times> async" where
  "CreateWithCheckOfExistence id' c =
     (case map_of (streams c) id' of
        Some a \<Rightarrow> (a, c)
      | None \<Rightarrow> Streams_Create id' c)"

definition Stream_Close :: "stream \<Rightarrow> stream" where
  \<comment> \<open>Modelled from the spec: \<open>(*Stream).Close\<close> is outside src/; shutdown closes every
      stream in the registry.\<close>
  "Stream_Close st = stream_close st"

definition CloseAll :: "async \<Rightarrow> async" where
  "CloseAll c =
     c\<lparr>heap := fold (\<lambda>kv h. h(snd kv := Stream_Close (h (snd kv)))) (streams c) (heap c)\<rparr>"

definition Poll :: "async \<Rightarrow> packet option \<times> async" where
  "Poll c =
     (case stalePackets c of
        [] \<Rightarrow> (None, c)
      | p # ps \<Rightarrow> (Some p, c\<lparr>stalePackets := ps\<rparr>))"

definition Packets_Set :: "packet list \<Rightarrow> async \<Rightarrow> async" where
  "Packets_Set ps c = c\<lparr>stalePackets := ps\<rparr>"

subsection \<open>Closing\<close>

text \<open>
  \<open>close\<close>: the compare-and-swap on \<open>closed\<close>; then the incoming queue is closed, the
  two channels are closed, the three loops are waited for, the incoming queue is drained
  into the stale packets, every stream is closed and what the writer still buffers is
  flushed, the result ignored.
\<close>

definition close :: "async \<Rightarrow> frisbee_error option \<times> async" where
  "close c =
     (if closed c then (Some ConnectionClosed, c)
      else
        let c = c\<lparr>closed := True\<rparr>;
            c = c\<lparr>incoming := queue_Close (incoming c)\<rparr>;
            c = (case queue_Drain (incoming c) of
                   (ps, q) \<Rightarrow> Packets_Set ps (c\<lparr>incoming := q\<rparr>));
            c = CloseAll c;
            c = (if Buffered c > 0 then snd (bw_Flush c) else c)
        in (None, c))"

definition closeWithError :: "frisbee_error \<Rightarrow> async \<Rightarrow> frisbee_error \<times> async" where
  "closeWithError err c =
     (case close c of
        (Some closeErr, c') \<Rightarrow> (closeErr, c')
      | (None, c') \<Rightarrow> (err, c'\<lparr>error := Some err, conn := conn_Close (conn c')\<rparr>))"

definition Close :: "async \<Rightarrow> frisbee_error option \<times> async" where
  "Close c =
     (case close c of
        (err, c') \<Rightarrow>
          if err = Some ConnectionClosed then (None, c')
          else (err, c'\<lparr>conn := conn_Close (conn c')\<rparr>))"

definition Raw :: "async \<Rightarrow> async" where
  "Raw c = snd (close c)"

definition Error :: "async \<Rightarrow> frisbee_error option" where
  "Error c = error c"

definition Closed :: "async \<Rightarrow> bool" where
  "Closed c = closed c"

subsection \<open>Writing\<close>

text \<open>
  The non-blocking send on \<open>flushCh\<close>, tried only when the channel is empty. It is
  reached only after the check of \<open>closed\<close>, that is with the channel open.
\<close>

definition signal_flush :: "async \<Rightarrow> async" where
  "signal_flush c = (if flushCh c = 0 then c\<lparr>flushCh := 1\<rparr> else c)"

definition write_failed :: "frisbee_error \<Rightarrow> async \<Rightarrow> frisbee_error option \<times> async" where
  "write_failed err c =
     (if closed c then (Some ConnectionClosed, c)
      else case closeWithError err c of (e, c') \<Rightarrow> (Some e, c'))"

definition writePacket :: "packet \<Rightarrow> async \<Rightarrow> frisbee_error option \<times> async" where
  "writePacket p c =
     (if unat (ContentLength (Metadata p)) \<noteq> length (Content p)
      then (Some InvalidContentLength, c)
      else
        let encodedMetadata = NewBuffer;
            encodedMetadata = put_bytes IdOffset (PutUint16 (Id_md (Metadata p))) encodedMetadata;
            encodedMetadata =
              put_bytes OperationOffset (PutUint16 (Operation (Metadata p))) encodedMetadata;
            encodedMetadata =
              put_bytes ContentLengthOffset (PutUint32 (ContentLength (Metadata p))) encodedMetadata
        in
        if closed c then (Some ConnectionClosed, c)
        else (case conn_SetDeadline (conn c) of
                Some err \<Rightarrow> write_failed err c
              | None \<Rightarrow>
                  (case bw_Write encodedMetadata c of
                     (Some err, c1) \<Rightarrow> write_failed err c1
                   | (None, c1) \<Rightarrow>
                       if ContentLength (Metadata p) \<noteq> 0
                       then (case bw_Write (take (unat (ContentLength (Metadata p))) (Content p)) c1 of
                               (Some err, c2) \<Rightarrow> write_failed err c2
                             | (None, c2) \<Rightarrow> (None, signal_flush c2))
                       else (None, signal_flush c1))))"

definition WritePacket :: "packet \<Rightarrow> async \<Rightarrow> frisbee_error option \<times> async" where
  "WritePacket p c =
     (if Operation (Metadata p) \<le> RESERVED9 then (Some InvalidOperation, c)
      else writePacket p c)"

subsection \<open>Reading, flushing and the public operations\<close>

definition read_stale :: "async \<Rightarrow> (frisbee_error + packet) \<times> async" where
  "read_stale c =
     (case Poll c of
        (Some p, c') \<Rightarrow> (Inr p, c')
      | (None, c') \<Rightarrow> (Inl ConnectionClosed, c'))"

text \<open>\<open>ReadPacket\<close>; \<open>None\<close> when the call blocks on the empty incoming queue.\<close>

definition ReadPacket :: "async \<Rightarrow> ((frisbee_error + packet) \<times> async) option" where
  "ReadPacket c =
     (if closed c then Some (read_stale c)
      else case queue_Pop (incoming c) of
             None \<Rightarrow> None
           | Some (Inl err) \<Rightarrow> if closed c then Some (read_stale c) else Some (Inl err, c)
           | Some (Inr (readPacket, q)) \<Rightarrow> Some (Inr readPacket, c\<lparr>incoming := q\<rparr>))"

definition flush :: "async \<Rightarrow> frisbee_error option \<times> async" where
  "flush c =
     (if closed c then (Some ConnectionClosed, c)
      else if Buffered c > 0
      then (case conn_SetDeadline (conn c) of
              Some err \<Rightarrow> (Some err, c)
            | None \<Rightarrow> bw_Flush c)
      else (None, c))"

definition Flush :: "async \<Rightarrow> frisbee_error option \<times> async" where
  "Flush c =
     (case flush c of
        (Some err, c') \<Rightarrow> (case closeWithError err c' of (e, c'') \<Rightarrow> (Some e, c''))
      | (None, c') \<Rightarrow> (None, c'))"

definition WriteBufferSize :: "async \<Rightarrow> nat" where
  "WriteBufferSize c = (if closed c then 0 else Buffered c)"

definition NewStream :: "uint16 \<Rightarrow> async \<Rightarrow> nat \<times> async" where
  "NewStream id' c = CreateWithCheckOfExistence id' c"

definition SetNewStreamHandler :: "handler option \<Rightarrow> async \<Rightarrow> async" where
  "SetNewStreamHandler h c = c\<lparr>newStreamHandler := h\<rparr>"

definition NewWriterSize :: "nat \<Rightarrow> bufio" where
  "NewWriterSize k = \<lparr> bw_buf = [], bw_size = (if k = 0 then 4096 else k), bw_err = None \<rparr>"

text \<open>
  \<open>NewAsync\<close> on a socket, with \<open>DefaultBufferSize = k\<close> and the optional handler. The
  store has no stream yet: every address holds a placeholder.
\<close>

definition NewAsync :: "socket \<Rightarrow> nat \<Rightarrow> handler option \<Rightarrow> async" where
  "NewAsync s k h =
     \<lparr> conn = s, closed = False, writer = NewWriterSize k, flushCh = 0,
       incoming = NewCircular k, stalePackets = [], error = None, streams = [],
       newStreamHandler = h, heap = (\<lambda>a. newStream 0 k), heap_next = 0, pool = [],
       spawned = [], bufsize = k \<rparr>"

text \<open>
  One turn of \<open>flushLoop\<close> and of \<open>pingLoop\<close>: \<open>None\<close> when the loop blocks, otherwise
  whether the loop goes on, and the endpoint afterwards.
\<close>

definition flushLoop_iter :: "async \<Rightarrow> (bool \<times> async) option" where
  "flushLoop_iter c =
     (if flushCh c > 0
      then (case flush (c\<lparr>flushCh := flushCh c - 1\<rparr>) of
              (Some err, c') \<Rightarrow> Some (False, snd (closeWithError err c'))
            | (None, c') \<Rightarrow> Some (True, c'))
      else if closed c then Some (False, c)
      else None)"

definition pingLoop_iter :: "async \<Rightarrow> bool \<times> async" where
  "pingLoop_iter c =
     (if closed c then (False, c)
      else case writePacket PINGPacket c of
             (Some err, c') \<Rightarrow> (False, snd (closeWithError err c'))
           | (None, c') \<Rightarrow> (True, c'))"

text \<open>A healthy socket on which nothing has arrived, and a fresh endpoint on it.\<close>

definition sock0 :: socket where
  "sock0 = \<lparr> sock_rd = [], sock_out = [], sock_wr_err = None, sock_dl_err = None,
             sock_closed = False \<rparr>"

definition mk_packet :: "uint16 \<Rightarrow> uint16 \<Rightarrow> uint32 \<Rightarrow> byte list \<Rightarrow> packet" where
  "mk_packet i operation k bs =
     \<lparr> Metadata = \<lparr> Id_md = i, Operation = operation, ContentLength = k \<rparr>, Content = bs \<rparr>"

section \<open>The read loop (async.go, readLoop)\<close>

text \<open>
  The local variables of \<open>readLoop\<close>. The read buffer is kept at its full capacity
  (\<open>buf = buf[:cap(buf)]\<close> precedes every read), so \<open>rl_buf\<close> is the whole backing
  array. \<open>rl_stream\<close> is the address of the stream looked up, \<open>None\<close> for nil.
\<close>

record rl_locals =
  rl_buf :: "byte list"
  rl_n :: nat
  rl_index :: nat
  rl_stream :: "nat option"
  rl_isStream :: bool
  rl_newStreamHandler :: "handler option"

text \<open>
  What a piece of the loop ends in: it goes on with a value, the loop returns (after
  \<open>closeWithError\<close>) leaving the endpoint given, it blocks in a \<open>Read\<close> for which nothing
  has arrived, it panics on a slice out of range, or it spins forever on reads into an
  empty slice.
\<close>

datatype 'a res = Cont 'a | Exit async | Blocked | Panic | Spin

datatype read_result =
    RDone "byte list" nat socket
  | RFail frisbee_error socket
  | RBlocked
  | RPanic
  | RSpin

text \<open>
  The four read loops of \<open>readLoop\<close> have one shape: while \<open>n < m\<close>, set the read
  deadline, \<open>Read\<close> into \<open>buf[off+n:]\<close> and add what was read to \<open>n\<close>; an error with
  fewer than \<open>m\<close> bytes read is fatal, an error with enough bytes read leaves the loop.
  \<open>off\<close> is 0 but in the loop that completes a partial header. A read into an empty
  slice returns \<open>(0, nil)\<close> and changes nothing, so the loop would not end: \<open>RSpin\<close>.
\<close>

function read_min :: "nat \<Rightarrow> nat \<Rightarrow> nat \<Rightarrow> byte list \<Rightarrow> socket \<Rightarrow> read_result" where
  "read_min off m k b s =
     (if k < m then
        (case conn_SetDeadline s of
           Some e \<Rightarrow> RFail e s
         | None \<Rightarrow>
             if length b < off + k then RPanic
             else if length b = off + k then RSpin
             else (case conn_Read (length b - (off + k)) s of
                     None \<Rightarrow> RBlocked
                   | Some ((bs, err), s') \<Rightarrow>
                       (case err of
                          Some e \<Rightarrow>
                            if k + length bs < m then RFail e s'
                            else RDone (put_bytes (off + k) bs b) (k + length bs) s'
                        | None \<Rightarrow>
                            read_min off m (k + length bs) (put_bytes (off + k) bs b) s')))
      else RDone b k s)"
  by pat_completeness auto
termination
proof (relation "measure (\<lambda>(off, m, k, b, s). rd_size (sock_rd s))")
  show "wf (measure (\<lambda>(off, m, k, b, s). rd_size (sock_rd s)))" by simp
next
  fix off m k :: nat and b :: "byte list" and s :: socket
    and x2 :: "(byte list \<times> frisbee_error option) \<times> socket"
    and x y :: "byte list \<times> frisbee_error option" and s' :: socket
    and bs :: "byte list" and err :: "frisbee_error option"
  assume dl: "conn_SetDeadline s = None"
    and sp: "\<not> length b < off + k" "length b \<noteq> off + k"
    and rd: "conn_Read (length b - (off + k)) s = Some x2"
    and x2: "(x, s') = x2" and x: "(bs, err) = x" and err: "err = None"
  from dl have nc: "\<not> sock_closed s"
    by (simp add: conn_SetDeadline_def split: if_splits)
  from sp have pos: "0 < length b - (off + k)" by simp
  from rd x2 x err nc pos have "rd_size (sock_rd s') < rd_size (sock_rd s)"
    by (cases "sock_rd s"; cases "hd (sock_rd s)")
       (auto simp: conn_Read_def split: if_splits list.splits event.splits)
  then show "((off, m, k + length bs, put_bytes (off + k) bs b, s'), (off, m, k, b, s))
      \<in> measure (\<lambda>(off, m, k, b, s). rd_size (sock_rd s))"
    by simp
qed

declare read_min.simps [simp del]

text \<open>
  The capacity \<open>append\<close> gives a full slice of capacity \<open>c\<close> that grows by one element:
  doubled below 256 elements, grown by a quarter (plus 192) from there. The runtime
  then rounds up to an allocation size class, which is left out. The new array holds the
  old bytes and zeros.
\<close>

definition growcap :: "nat \<Rightarrow> nat" where
  "growcap c = (if 2 * c < c + 1 then c + 1 else if c < 256 then 2 * c else c + (c + 768) div 4)"

function grow_buf :: "nat \<Rightarrow> byte list \<Rightarrow> byte list" where
  "grow_buf m b =
     (if length b < m then grow_buf m (b @ replicate (growcap (length b) - length b) 0)
      else b)"
  by pat_completeness auto
termination
proof (relation "measure (\<lambda>(m, b). m - length b)")
  show "wf (measure (\<lambda>(m, b). m - length b))" by simp
next
  fix m :: nat and b :: "byte list"
  assume less: "length b < m"
  have "0 < (length b + 768) div 4"
    by (simp add: div_greater_zero_iff)
  then have "length b < growcap (length b)"
    by (simp add: growcap_def)
  with less show "((m, b @ replicate (growcap (length b) - length b) 0), (m, b))
      \<in> measure (\<lambda>(m, b). m - length b)"
    by simp
qed

declare grow_buf.simps [simp del]

definition rl_fail :: "frisbee_error \<Rightarrow> async \<Rightarrow> 'a res" where
  "rl_fail err c = Exit (snd (closeWithError err c))"

text \<open>
  Filling the buffer with a header: the head of the outer loop, and the same code again
  where the buffer has been consumed exactly.
\<close>

definition rl_fill :: "rl_locals \<Rightarrow> async \<Rightarrow> (rl_locals \<times> async) res" where
  "rl_fill l c =
     (if length (rl_buf l) < Size then rl_fail InvalidBufferLength c
      else (case read_min 0 Size 0 (rl_buf l) (conn c) of
              RDone b k s \<Rightarrow> Cont (l\<lparr>rl_buf := b, rl_n := k, rl_index := 0\<rparr>, c\<lparr>conn := s\<rparr>)
            | RFail err s \<Rightarrow> rl_fail err (c\<lparr>conn := s\<rparr>)
            | RBlocked \<Rightarrow> Blocked
            | RPanic \<Rightarrow> Panic
            | RSpin \<Rightarrow> Spin))"

text \<open>
  Parsing the header at \<open>index\<close> into a packet from the pool; \<open>None\<close> when the slices
  are out of range.
\<close>

definition rl_parse :: "rl_locals \<Rightarrow> packet option" where
  "rl_parse l =
     (let b = rl_buf l; i = rl_index l in
      if length b < i + Size then None
      else Some (packet_Get\<lparr>Metadata :=
        \<lparr> Id_md = Uint16 (go_slice b (i + IdOffset) (i + IdOffset + IdSize)),
          Operation = Uint16 (go_slice b (i + OperationOffset) (i + OperationOffset + OperationSize)),
          ContentLength = Uint32 (go_slice b (i + ContentLengthOffset)
                                    (i + ContentLengthOffset + ContentLengthSize)) \<rparr>\<rparr>))"

text \<open>
  Payload handling, the head of the \<open>default\<close> branch: the content is taken from the
  buffer when it is all there; otherwise what is buffered is taken, the buffer is grown
  to hold the rest, and the rest is read.
\<close>

definition rl_payload ::
  "packet \<Rightarrow> rl_locals \<Rightarrow> async \<Rightarrow> (packet \<times> rl_locals \<times> async) res" where
  "rl_payload p l c =
     (let len = unat (ContentLength (Metadata p)); b = rl_buf l; k = rl_n l; i = rl_index l in
      if 0 < len then
        (if k < i + len then
           (if k < i \<or> length b < k then Panic
            else
              let p = Content_Write (go_slice b i k) p;
                  m = len - (k - i);
                  b = grow_buf m b
              in (case read_min 0 m 0 b (conn c) of
                    RDone b k s \<Rightarrow>
                      Cont (Content_Write (go_slice b 0 m) p,
                            l\<lparr>rl_buf := b, rl_n := k, rl_index := m\<rparr>, c\<lparr>conn := s\<rparr>)
                  | RFail err s \<Rightarrow> rl_fail err (c\<lparr>conn := s\<rparr>)
                  | RBlocked \<Rightarrow> Blocked
                  | RPanic \<Rightarrow> Panic
                  | RSpin \<Rightarrow> Spin))
         else if length b < i + len then Panic
         else Cont (Content_Write (go_slice b i (i + len)) p, l\<lparr>rl_index := i + len\<rparr>, c))
      else Cont (p, l, c))"

text \<open>
  Routing, the rest of the \<open>default\<close> branch: a packet that is not a stream packet goes
  to the incoming queue; a stream packet without content closes and removes its stream;
  a stream packet with content is dropped without a handler, and otherwise pushed to
  its stream, which is created, and the handler started on it, when it does not exist.
\<close>

definition rl_route :: "packet \<Rightarrow> rl_locals \<Rightarrow> async \<Rightarrow> (rl_locals \<times> async) res" where
  "rl_route p l c =
     (if \<not> rl_isStream l then
        (case queue_Push p (incoming c) of
           Inl err \<Rightarrow> rl_fail err c
         | Inr q \<Rightarrow> Cont (l, c\<lparr>incoming := q\<rparr>))
      else if ContentLength (Metadata p) = 0 then
        (case rl_stream l of
           Some a \<Rightarrow>
             (let c = c\<lparr>heap := (heap c)(a := stream_close (heap c a))\<rparr>;
                  c = Streams_Remove (Id_md (Metadata p)) c
              in Cont (l, c\<lparr>pool := pool c @ [p]\<rparr>))
         | None \<Rightarrow> Cont (l, c\<lparr>pool := pool c @ [p]\<rparr>))
      else
        (case rl_newStreamHandler l of
           None \<Rightarrow> Cont (l, c\<lparr>pool := pool c @ [p]\<rparr>)
         | Some h \<Rightarrow>
             (let (a, l, c) =
                    (case rl_stream l of
                       None \<Rightarrow>
                         (case Streams_Create (Id_md (Metadata p)) c of
                            (a, c) \<Rightarrow> (a, l\<lparr>rl_stream := Some a\<rparr>, c\<lparr>spawned := spawned c @ [(h, a)]\<rparr>))
                     | Some a \<Rightarrow> (a, l, c))
              in (case queue_Push p (stream_queue (heap c a)) of
                    Inl err \<Rightarrow> rl_fail err c
                  | Inr q \<Rightarrow> Cont (l, c\<lparr>heap := (heap c)(a := (heap c a)\<lparr>stream_queue := q\<rparr>)\<rparr>)))))"

definition rl_default :: "packet \<Rightarrow> rl_locals \<Rightarrow> async \<Rightarrow> (rl_locals \<times> async) res" where
  "rl_default p l c =
     (case rl_payload p l c of
        Cont (p, l, c) \<Rightarrow>
          (case rl_route p l c of
             Cont (l, c) \<Rightarrow>
               Cont (l\<lparr>rl_newStreamHandler := None, rl_stream := None, rl_isStream := False\<rparr>, c)
           | Exit c \<Rightarrow> Exit c | Blocked \<Rightarrow> Blocked | Panic \<Rightarrow> Panic | Spin \<Rightarrow> Spin)
      | Exit c \<Rightarrow> Exit c | Blocked \<Rightarrow> Blocked | Panic \<Rightarrow> Panic | Spin \<Rightarrow> Spin)"

text \<open>The \<open>switch\<close> on the operation of the parsed packet.\<close>

definition rl_switch :: "packet \<Rightarrow> rl_locals \<Rightarrow> async \<Rightarrow> (rl_locals \<times> async) res" where
  "rl_switch p l c =
     (if Operation (Metadata p) = PING then
        (case writePacket PONGPacket c of
           (Some err, c) \<Rightarrow> rl_fail err c
         | (None, c) \<Rightarrow> Cont (l, c\<lparr>pool := pool c @ [p]\<rparr>))
      else if Operation (Metadata p) = PONG then Cont (l, c\<lparr>pool := pool c @ [p]\<rparr>)
      else if Operation (Metadata p) = STREAM then
        (let l = l\<lparr>rl_isStream := True\<rparr>;
             l = l\<lparr>rl_newStreamHandler := newStreamHandler c\<rparr>;
             l = (if rl_newStreamHandler l \<noteq> None \<or> ContentLength (Metadata p) = 0
                  then l\<lparr>rl_stream := Streams_Get (Id_md (Metadata p)) c\<rparr> else l)
         in rl_default p l c)
      else rl_default p l c)"

text \<open>
  After the switch: a buffer consumed exactly is filled again with a header; a tail
  shorter than a header is moved to the front and completed; otherwise the next header
  is parsed in place.
\<close>

definition rl_refill :: "rl_locals \<Rightarrow> async \<Rightarrow> (rl_locals \<times> async) res" where
  "rl_refill l c =
     (let b = rl_buf l; k = rl_n l; i = rl_index l in
      if k = i then rl_fill (l\<lparr>rl_index := 0\<rparr>) c
      else if k < i + Size then
        (if k < i \<or> length b < k then Panic
         else
           let b = put_bytes 0 (go_slice b i k) b;
               k = k - i;
               i = k;
               m = Size - i
           in if length b < m then rl_fail InvalidBufferLength c
              else (case read_min i m 0 b (conn c) of
                      RDone b k s \<Rightarrow>
                        Cont (l\<lparr>rl_buf := b, rl_n := k + i, rl_index := 0\<rparr>, c\<lparr>conn := s\<rparr>)
                    | RFail err s \<Rightarrow> rl_fail err (c\<lparr>conn := s\<rparr>)
                    | RBlocked \<Rightarrow> Blocked
                    | RPanic \<Rightarrow> Panic
                    | RSpin \<Rightarrow> Spin))
      else Cont (l, c))"

text \<open>
  One turn of the inner loop (\<open>for index < n\<close>) is \<open>rl_body\<close>, which parses the header,
  advances \<open>index\<close> by the header size and runs the switch, followed by \<open>rl_refill\<close>.
  \<open>rl_step\<close> is one turn of the loop wherever it stands: a turn of the inner loop, or
  the head of the outer loop when the inner loop has ended. \<open>readLoop k\<close> is the loop
  after \<open>k\<close> turns, started with \<open>rl_init\<close>.
\<close>

definition rl_body :: "rl_locals \<Rightarrow> async \<Rightarrow> (rl_locals \<times> async) res" where
  "rl_body l c =
     (case rl_parse l of
        None \<Rightarrow> Panic
      | Some p \<Rightarrow> rl_switch p (l\<lparr>rl_index := rl_index l + Size\<rparr>) c)"

definition rl_iter :: "rl_locals \<Rightarrow> async \<Rightarrow> (rl_locals \<times> async) res" where
  "rl_iter l c =
     (case rl_body l c of
        Cont (l, c) \<Rightarrow> rl_refill l c
      | Exit c \<Rightarrow> Exit c | Blocked \<Rightarrow> Blocked | Panic \<Rightarrow> Panic | Spin \<Rightarrow> Spin)"

definition rl_step :: "rl_locals \<Rightarrow> async \<Rightarrow> (rl_locals \<times> async) res" where
  "rl_step l c = (if rl_index l < rl_n l then rl_iter l c else rl_fill l c)"

definition rl_init :: "nat \<Rightarrow> rl_locals" where
  "rl_init k =
     \<lparr> rl_buf = replicate k 0, rl_n = 0, rl_index = 0, rl_stream = None,
       rl_isStream = False, rl_newStreamHandler = None \<rparr>"

fun readLoop :: "nat \<Rightarrow> rl_locals \<Rightarrow> async \<Rightarrow> (rl_locals \<times> async) res" where
  "readLoop 0 l c = Cont (l, c)"
| "readLoop (Suc k) l c =
     (case rl_step l c of
        Cont (l', c') \<Rightarrow> readLoop k l' c'
      | Exit c' \<Rightarrow> Exit c' | Blocked \<Rightarrow> Blocked | Panic \<Rightarrow> Panic | Spin \<Rightarrow> Spin)"

section \<open>The endpoint with its three loops, as a transition system\<close>

text \<open>
  A state of the whole: the endpoint, the local variables of the read loop, whether the
  read loop stands before \<open>rl_refill\<close> (\<open>rl_at_refill\<close>) or at the loop condition, and
  which loops are still running. A step is a call of a public operation by the user, a
  turn of one of the loops, or an act of the peer and the network: more input arriving,
  or the socket starting (or ceasing) to fail. The steps interleave in any order; each
  runs as a whole, and a step of a loop that would block leaves the state as it is.
  The operations of a stream that the user calls (reading from the stream, closing it)
  are outside src/ and are no steps here.
\<close>

record sys =
  ep :: async
  rl :: rl_locals
  rl_at_refill :: bool
  rl_alive :: bool
  fl_alive :: bool
  pl_alive :: bool

datatype op =
    UWritePacket packet
  | UReadPacket
  | UFlush
  | UClose
  | URaw
  | UNewStream uint16
  | USetNewStreamHandler "handler option"
  | LRead
  | LFlush
  | LPing
  | EArrive event
  | EFail "frisbee_error option" "frisbee_error option"

definition read_turn :: "sys \<Rightarrow> sys" where
  "read_turn x =
     (if \<not> rl_alive x then x
      else
        (case (if rl_at_refill x then rl_refill (rl x) (ep x)
               else if rl_index (rl x) < rl_n (rl x) then rl_body (rl x) (ep x)
               else rl_fill (rl x) (ep x)) of
           Cont (l, c) \<Rightarrow>
             x\<lparr>ep := c, rl := l,
               rl_at_refill := (\<not> rl_at_refill x \<and> rl_index (rl x) < rl_n (rl x))\<rparr>
         | Exit c \<Rightarrow> x\<lparr>ep := c, rl_alive := False\<rparr>
         | Blocked \<Rightarrow> x
         | Panic \<Rightarrow> x\<lparr>rl_alive := False\<rparr>
         | Spin \<Rightarrow> x\<lparr>rl_alive := False\<rparr>))"

definition flush_turn :: "sys \<Rightarrow> sys" where
  "flush_turn x =
     (if \<not> fl_alive x then x
      else (case flushLoop_iter (ep x) of
              None \<Rightarrow> x
            | Some (go, c) \<Rightarrow> x\<lparr>ep := c, fl_alive := go\<rparr>))"

definition ping_turn :: "sys \<Rightarrow> sys" where
  "ping_turn x =
     (if \<not> pl_alive x then x
      else (case pingLoop_iter (ep x) of (go, c) \<Rightarrow> x\<lparr>ep := c, pl_alive := go\<rparr>))"

fun step :: "op \<Rightarrow> sys \<Rightarrow> sys" where
  "step (UWritePacket p) x = x\<lparr>ep := snd (WritePacket p (ep x))\<rparr>"
| "step UReadPacket x =
     (case ReadPacket (ep x) of None \<Rightarrow> x | Some (r, c) \<Rightarrow> x\<lparr>ep := c\<rparr>)"
| "step UFlush x = x\<lparr>ep := snd (Flush (ep x))\<rparr>"
| "step UClose x = x\<lparr>ep := snd (Close (ep x))\<rparr>"
| "step URaw x = x\<lparr>ep := Raw (ep x)\<rparr>"
| "step (UNewStream i) x = x\<lparr>ep := snd (NewStream i (ep x))\<rparr>"
| "step (USetNewStreamHandler h) x = x\<lparr>ep := SetNewStreamHandler h (ep x)\<rparr>"
| "step LRead x = read_turn x"
| "step LFlush x = flush_turn x"
| "step LPing x = ping_turn x"
| "step (EArrive ev) x =
     x\<lparr>ep := (ep x)\<lparr>conn := (conn (ep x))\<lparr>sock_rd := sock_rd (conn (ep x)) @ [ev]\<rparr>\<rparr>\<rparr>"
| "step (EFail w d) x =
     x\<lparr>ep := (ep x)\<lparr>conn := (conn (ep x))\<lparr>sock_wr_err := w, sock_dl_err := d\<rparr>\<rparr>\<rparr>"

fun run :: "op list \<Rightarrow> sys \<Rightarrow> sys" where
  "run [] x = x"
| "run (a # as) x = run as (step a x)"

definition sys_init :: "socket \<Rightarrow> nat \<Rightarrow> handler option \<Rightarrow> sys" where
  "sys_init s k h =
     \<lparr> ep = NewAsync s k h, rl = rl_init k, rl_at_refill = False,
       rl_alive = True, fl_alive = True, pl_alive = True \<rparr>"

inductive reachable :: "sys \<Rightarrow> bool" where
  reachable_init: "reachable (sys_init s k h)"
| reachable_step: "reachable x \<Longrightarrow> reachable (step a x)"

section \<open>Notions used in the statements and proofs\<close>

text \<open>\<open>ReadPackets k\<close>: \<open>k\<close> calls of \<open>ReadPacket\<close> in a row, with their results in order;
  \<open>None\<close> if one of them blocks.\<close>

fun ReadPackets :: "nat \<Rightarrow> async \<Rightarrow> ((frisbee_error + packet) list \<times> async) option" where
  "ReadPackets 0 c = Some ([], c)"
| "ReadPackets (Suc k) c =
     (case ReadPacket c of
        None \<Rightarrow> None
      | Some (r, c') \<Rightarrow>
          (case ReadPackets k c' of
             None \<Rightarrow> None
           | Some (rs, c'') \<Rightarrow> Some (r # rs, c'')))"

text \<open>A property of the endpoint that the input and output paths keep: it survives a
  change of the socket, of the writer and of the flush channel, and closing.\<close>

definition io_closed :: "(async \<Rightarrow> bool) \<Rightarrow> bool" where
  "io_closed P =
     ((\<forall>c s. P c \<longrightarrow> P (c\<lparr>conn := s\<rparr>)) \<and>
      (\<forall>c b. P c \<longrightarrow> P (c\<lparr>writer := b\<rparr>)) \<and>
      (\<forall>c k. P c \<longrightarrow> P (c\<lparr>flushCh := k\<rparr>)) \<and>
      (\<forall>c. P c \<longrightarrow> P (snd (close c))) \<and>
      (\<forall>c e. P c \<longrightarrow> P (snd (closeWithError e c))))"

text \<open>\<open>res_all P g r\<close>: the endpoint that the result \<open>r\<close> of a piece of the read loop
  leaves, if it leaves one, satisfies \<open>P\<close>.\<close>

definition res_all :: "(async \<Rightarrow> bool) \<Rightarrow> ('a \<Rightarrow> async) \<Rightarrow> 'a res \<Rightarrow> bool" where
  "res_all P g r = (case r of Cont v \<Rightarrow> P (g v) | Exit c \<Rightarrow> P c | _ \<Rightarrow> True)"

text \<open>\<open>sticky c c'\<close>: from \<open>c\<close> to \<open>c'\<close> a closed endpoint has stayed closed with its
  error slot as it was, and the error slot has changed only if the endpoint is closed
  now.\<close>

definition sticky :: "async \<Rightarrow> async \<Rightarrow> bool" where
  "sticky c c' = ((closed c \<longrightarrow> closed c' \<and> error c' = error c) \<and>
                  (error c' \<noteq> error c \<longrightarrow> closed c'))"

text \<open>States for the examples: an endpoint with two parsed packets waiting in the
  incoming queue, and the whole system on a socket whose first read fails.\<close>

definition c_two :: async where
  "c_two = (NewAsync sock0 16 None)
     \<lparr>incoming := \<lparr> q_items = [mk_packet 1 32 0 [], mk_packet 2 33 1 [7]],
                   q_closed = False, q_cap = 16 \<rparr>\<rparr>"

definition x_broken :: sys where
  "x_broken = step LRead (sys_init (sock0\<lparr>sock_rd := [Rd [] (Some (IOError 1))]\<rparr>) 16 None)"

text \<open>Read-loop states for the examples: a close sentinel for stream 7, a STREAM
  frame with its two bytes of payload in the buffer and one whose payload has not
  arrived, on a socket whose next read fails, and a PING frame that declares 8 bytes of
  payload. \<open>res_index\<close> and \<open>res_incoming\<close> read the index and the incoming queue off
  the result of a turn.\<close>

definition l_sentinel :: rl_locals where
  "l_sentinel = (rl_init 16)\<lparr>rl_buf := [0, 7, 0, 12, 0, 0, 0, 0, 0, 0, 0, 0, 0, 0, 0, 0], rl_n := 8\<rparr>"

definition c_stream7 :: async where
  "c_stream7 = snd (NewStream 7 (NewAsync sock0 16 None))"



definition l_drop :: rl_locals where
  "l_drop = (rl_init 16)\<lparr>rl_buf := [0, 7, 0, 12, 0, 0, 0, 2, 5, 6, 0, 0, 0, 0, 0, 0], rl_n := 10\<rparr>"

definition l_cut :: rl_locals where
  "l_cut = (rl_init 16)\<lparr>rl_buf := [0, 7, 0, 12, 0, 0, 0, 2, 0, 0, 0, 0, 0, 0, 0, 0], rl_n := 8\<rparr>"

definition c_fail :: async where
  "c_fail = NewAsync (sock0\<lparr>sock_rd := [Rd [] (Some (IOError 3))]\<rparr>) 16 None"

definition l_ping :: rl_locals where
  "l_ping = (rl_init 24)
     \<lparr>rl_buf := [0, 0, 0, 10, 0, 0, 0, 8,  0, 1, 0, 32, 0, 0, 0, 0,  0, 2, 0, 33, 0, 0, 0, 0],
      rl_n := 24\<rparr>"

definition res_index :: "(rl_locals \<times> async) res \<Rightarrow> nat option" where
  "res_index r = (case r of Cont (l, c) \<Rightarrow> Some (rl_index l) | _ \<Rightarrow> None)"

definition res_incoming :: "(rl_locals \<times> async) res \<Rightarrow> packet list" where
  "res_incoming r = (case r of Cont (l, c) \<Rightarrow> q_items (incoming c) | Exit c \<Rightarrow> q_items (incoming c) | _ \<Rightarrow> [])"

section \<open>Properties of the codec\<close>

lemmas layout_defs =
  IdOffset_def IdSize_def OperationOffset_def OperationSize_def
  ContentLengthOffset_def ContentLengthSize_def Size_def

lemma Uint16_PutUint16: "Uint16 (PutUint16 v) = v"
  unfolding Uint16_def PutUint16_def
  by (rule bit_word_eqI) (auto simp add: bit_simps)

lemma Uint32_PutUint32: "Uint32 (PutUint32 v) = v"
proof (rule bit_word_eqI)
  fix k assume "k < LENGTH(32)"
  then have k: "k < 32" by simp
  consider "k < 8" | "8 \<le> k" "k < 16" | "16 \<le> k" "k < 24" | "24 \<le> k"
    by linarith
  then show "bit (Uint32 (PutUint32 v)) k = bit v k"
    using k by cases (auto simp add: Uint32_def PutUint32_def bit_simps)
qed

lemma Metadata_Encode_bytes:
  "Metadata_Encode fm =
     Inr (PutUint16 (Id_md fm) @ PutUint16 (Operation fm) @ PutUint32 (ContentLength fm))"
  by (simp add: Metadata_Encode_def NewBuffer_def put_bytes_def layout_defs
      PutUint16_def PutUint32_def Let_def)

lemma Metadata_Decode_bytes:
  "Metadata_Decode (PutUint16 i @ PutUint16 operation @ PutUint32 n) =
     \<lparr> Id_md = i, Operation = operation, ContentLength = n \<rparr>"
proof -
  let ?b = "PutUint16 i @ PutUint16 operation @ PutUint32 n"
  have a: "go_slice ?b IdOffset (IdOffset + IdSize) = PutUint16 i"
    by (simp add: go_slice_def PutUint16_def layout_defs)
  have b: "go_slice ?b OperationOffset (OperationOffset + OperationSize) = PutUint16 operation"
    by (simp add: go_slice_def PutUint16_def layout_defs)
  have c: "go_slice ?b ContentLengthOffset (ContentLengthOffset + ContentLengthSize)
             = PutUint32 n"
    by (simp add: go_slice_def PutUint16_def PutUint32_def layout_defs)
  show ?thesis
    unfolding Metadata_Decode_def a b c by (simp add: Uint16_PutUint16 Uint32_PutUint32)
qed

text \<open>
  C1. For every triple (id, operation, content_length), \<open>Encode\<close> returns an 8-byte
  buffer without error, and \<open>Decode\<close> of that buffer returns the same triple.
\<close>

theorem C1_encode_decode_roundtrip:
  "\<exists>b. Encode i operation n = Inr b \<and> length b = 8 \<and>
       Decode b = Inr \<lparr> Id_md = i, Operation = operation, ContentLength = n \<rparr>"
proof -
  let ?b = "PutUint16 i @ PutUint16 operation @ PutUint32 n"
  have len: "length ?b = 8"
    by (simp add: PutUint16_def PutUint32_def)
  have enc: "Encode i operation n = Inr ?b"
    by (simp add: Encode_def Metadata_Encode_bytes)
  have "Decode ?b = Inr (Metadata_Decode ?b)"
    using len by (simp add: Decode_def layout_defs)
  then have dec: "Decode ?b = Inr \<lparr> Id_md = i, Operation = operation, ContentLength = n \<rparr>"
    by (simp only: Metadata_Decode_bytes)
  from enc len dec show ?thesis by blast
qed

section \<open>Validation in WritePacket\<close>

lemma reserved_iff: "(w \<le> RESERVED9) = (unat w \<le> 9)"
  by (simp add: RESERVED9_def word_le_nat_alt)

text \<open>
  C5. For every packet whose operation is in 0..9, \<open>WritePacket\<close> returns
  \<open>InvalidOperation\<close> and the endpoint it returns is the endpoint it was given: nothing
  is written to the buffered writer or the socket and no field changes.
\<close>

theorem C5_reserved_operation_rejected:
  "unat (Operation (Metadata p)) \<le> 9 \<Longrightarrow> WritePacket p c = (Some InvalidOperation, c)"
  by (simp add: WritePacket_def reserved_iff)

theorem C5_reserved_operation_rejected_witness:
  "unat (Operation (Metadata (mk_packet 1 3 0 []))) \<le> 9 \<and>
   WritePacket (mk_packet 1 3 0 []) (NewAsync sock0 16 None)
     = (Some InvalidOperation, NewAsync sock0 16 None)"
proof -
  have h: "unat (Operation (Metadata (mk_packet 1 3 0 []))) \<le> 9"
    by (simp add: mk_packet_def)
  from h C5_reserved_operation_rejected [OF h] show ?thesis by blast
qed

text \<open>
  C6. For every packet whose operation is at least 10 and whose declared content length
  differs from the length of its content buffer, \<open>WritePacket\<close> returns
  \<open>InvalidContentLength\<close> and the endpoint it returns is the endpoint it was given.
\<close>

theorem C6_content_length_mismatch_rejected:
  "10 \<le> unat (Operation (Metadata p)) \<Longrightarrow>
   unat (ContentLength (Metadata p)) \<noteq> length (Content p) \<Longrightarrow>
   WritePacket p c = (Some InvalidContentLength, c)"
  by (simp add: WritePacket_def writePacket_def reserved_iff)

theorem C6_content_length_mismatch_rejected_witness:
  "10 \<le> unat (Operation (Metadata (mk_packet 1 32 5 [1, 2]))) \<and>
   unat (ContentLength (Metadata (mk_packet 1 32 5 [1, 2]))) \<noteq> length (Content (mk_packet 1 32 5 [1, 2])) \<and>
   WritePacket (mk_packet 1 32 5 [1, 2]) (NewAsync sock0 16 None)
     = (Some InvalidContentLength, NewAsync sock0 16 None)"
proof -
  have h1: "10 \<le> unat (Operation (Metadata (mk_packet 1 32 5 [1, 2])))"
    by (simp add: mk_packet_def)
  have h2: "unat (ContentLength (Metadata (mk_packet 1 32 5 [1, 2])))
              \<noteq> length (Content (mk_packet 1 32 5 [1, 2]))"
    by (simp add: mk_packet_def)
  from h1 h2 C6_content_length_mismatch_rejected [OF h1 h2] show ?thesis by blast
qed

text \<open>
  C10. A packet that is invalid in both ways, operation in 0..9 and declared content
  length different from the length of its content, gets \<open>InvalidOperation\<close> from
  \<open>WritePacket\<close>; and whenever \<open>WritePacket\<close> returns \<open>InvalidContentLength\<close> the
  operation of the packet is at least 10.
\<close>

theorem C10_reserved_check_has_priority:
  "(unat (Operation (Metadata p)) \<le> 9 \<and>
      unat (ContentLength (Metadata p)) \<noteq> length (Content p)
      \<longrightarrow> WritePacket p c = (Some InvalidOperation, c)) \<and>
   (fst (WritePacket q c) = Some InvalidContentLength \<longrightarrow> 10 \<le> unat (Operation (Metadata q)))"
proof (intro conjI impI)
  assume "unat (Operation (Metadata p)) \<le> 9 \<and>
    unat (ContentLength (Metadata p)) \<noteq> length (Content p)"
  then show "WritePacket p c = (Some InvalidOperation, c)"
    by (simp add: WritePacket_def reserved_iff)
next
  assume r: "fst (WritePacket q c) = Some InvalidContentLength"
  show "10 \<le> unat (Operation (Metadata q))"
  proof (rule ccontr)
    assume "\<not> 10 \<le> unat (Operation (Metadata q))"
    then have "unat (Operation (Metadata q)) \<le> 9" by simp
    then have "fst (WritePacket q c) = Some InvalidOperation"
      by (simp add: WritePacket_def reserved_iff)
    with r show False by simp
  qed
qed

theorem C10_reserved_check_has_priority_witness:
  "unat (Operation (Metadata (mk_packet 1 3 5 [1, 2]))) \<le> 9 \<and>
   unat (ContentLength (Metadata (mk_packet 1 3 5 [1, 2]))) \<noteq> length (Content (mk_packet 1 3 5 [1, 2])) \<and>
   WritePacket (mk_packet 1 3 5 [1, 2]) (NewAsync sock0 16 None)
     = (Some InvalidOperation, NewAsync sock0 16 None) \<and>
   fst (WritePacket (mk_packet 1 32 5 [1, 2]) (NewAsync sock0 16 None)) = Some InvalidContentLength \<and>
   10 \<le> unat (Operation (Metadata (mk_packet 1 32 5 [1, 2])))"
proof -
  have h1: "unat (Operation (Metadata (mk_packet 1 3 5 [1, 2]))) \<le> 9 \<and>
    unat (ContentLength (Metadata (mk_packet 1 3 5 [1, 2]))) \<noteq> length (Content (mk_packet 1 3 5 [1, 2]))"
    by (simp add: mk_packet_def)
  have h2: "fst (WritePacket (mk_packet 1 32 5 [1, 2]) (NewAsync sock0 16 None))
              = Some InvalidContentLength"
    by (simp add: WritePacket_def writePacket_def mk_packet_def RESERVED9_def)
  from h1 h2
    C10_reserved_check_has_priority
      [of "mk_packet 1 3 5 [1, 2]" "NewAsync sock0 16 None" "mk_packet 1 32 5 [1, 2]"]
  show ?thesis by blast
qed

section \<open>Closing, and reading what was parsed before the close\<close>

lemma bw_Flush_frame: "\<exists>e b s. bw_Flush c = (e, c\<lparr>writer := b, conn := s\<rparr>)"
  by (cases "bufio_Flush (writer c, conn c)") (auto simp: bw_Flush_def)

lemma bw_Write_frame: "\<exists>e b s. bw_Write p c = (e, c\<lparr>writer := b, conn := s\<rparr>)"
  by (cases "bufio_Write p (writer c, conn c)") (auto simp: bw_Write_def)

lemma close_closed: "closed c \<Longrightarrow> close c = (Some ConnectionClosed, c)"
  by (simp add: close_def)

lemma close_open:
  "\<not> closed c \<Longrightarrow>
   \<exists>b s. close c =
     (None, c\<lparr>closed := True,
              incoming := (incoming c)\<lparr>q_closed := True, q_items := []\<rparr>,
              stalePackets := q_items (incoming c),
              heap := fold (\<lambda>kv h. h(snd kv := Stream_Close (h (snd kv)))) (streams c) (heap c),
              writer := b, conn := s\<rparr>)"
proof -
  assume o: "\<not> closed c"
  define c4 where "c4 = CloseAll (Packets_Set (q_items (incoming c))
     (c\<lparr>closed := True, incoming := (incoming c)\<lparr>q_closed := True, q_items := []\<rparr>\<rparr>))"
  have c4: "c4 = c\<lparr>closed := True,
              incoming := (incoming c)\<lparr>q_closed := True, q_items := []\<rparr>,
              stalePackets := q_items (incoming c),
              heap := fold (\<lambda>kv h. h(snd kv := Stream_Close (h (snd kv)))) (streams c) (heap c)\<rparr>"
    by (simp add: c4_def CloseAll_def Packets_Set_def)
  have cl: "close c = (None, if Buffered c4 > 0 then snd (bw_Flush c4) else c4)"
    using o by (simp add: close_def Let_def queue_Close_def queue_Drain_def c4_def)
  obtain e b s where f: "bw_Flush c4 = (e, c4\<lparr>writer := b, conn := s\<rparr>)"
    using bw_Flush_frame by blast
  show ?thesis
  proof (cases "Buffered c4 > 0")
    case True
    with cl f have "close c = (None, c4\<lparr>writer := b, conn := s\<rparr>)" by simp
    then show ?thesis unfolding c4 by (intro exI[of _ b] exI[of _ s]) simp
  next
    case False
    with cl have "close c = (None, c4\<lparr>writer := writer c, conn := conn c\<rparr>)"
      by (simp add: c4)
    then show ?thesis unfolding c4 by (intro exI[of _ "writer c"] exI[of _ "conn c"]) simp
  qed
qed

lemma ReadPacket_closed:
  "closed c \<Longrightarrow>
   ReadPacket c = Some (case stalePackets c of
                          [] \<Rightarrow> (Inl ConnectionClosed, c)
                        | p # ps \<Rightarrow> (Inr p, c\<lparr>stalePackets := ps\<rparr>))"
  by (simp add: ReadPacket_def read_stale_def Poll_def split: list.splits)

lemma ReadPackets_stale:
  "closed c \<Longrightarrow> stalePackets c = ps \<Longrightarrow>
   ReadPackets (Suc (length ps)) c
     = Some (map Inr ps @ [Inl ConnectionClosed], c\<lparr>stalePackets := []\<rparr>)"
proof (induction ps arbitrary: c)
  case Nil
  then show ?case by (simp add: ReadPacket_closed)
next
  case (Cons p ps)
  have "ReadPacket c = Some (Inr p, c\<lparr>stalePackets := ps\<rparr>)"
    using Cons.prems by (simp add: ReadPacket_closed)
  moreover have "ReadPackets (Suc (length ps)) (c\<lparr>stalePackets := ps\<rparr>)
     = Some (map Inr ps @ [Inl ConnectionClosed], c\<lparr>stalePackets := []\<rparr>)"
    using Cons.IH [of "c\<lparr>stalePackets := ps\<rparr>"] Cons.prems by simp
  ultimately show ?case by simp
qed



lemma closeWithError_closed: "closed c \<Longrightarrow> closeWithError e c = (ConnectionClosed, c)"
  by (simp add: closeWithError_def close_closed)

lemma closeWithError_open:
  "\<not> closed c \<Longrightarrow>
   \<exists>b s. closeWithError e c =
     (e, c\<lparr>closed := True,
              incoming := (incoming c)\<lparr>q_closed := True, q_items := []\<rparr>,
              stalePackets := q_items (incoming c),
              heap := fold (\<lambda>kv h. h(snd kv := Stream_Close (h (snd kv)))) (streams c) (heap c),
              writer := b, error := Some e, conn := s\<rparr>)"
proof -
  assume "\<not> closed c"
  from close_open [OF this] obtain b s where "close c =
     (None, c\<lparr>closed := True,
              incoming := (incoming c)\<lparr>q_closed := True, q_items := []\<rparr>,
              stalePackets := q_items (incoming c),
              heap := fold (\<lambda>kv h. h(snd kv := Stream_Close (h (snd kv)))) (streams c) (heap c),
              writer := b, conn := s\<rparr>)" by blast
  then show ?thesis
    by (intro exI[of _ b] exI[of _ "conn_Close s"]) (simp add: closeWithError_def)
qed

lemma Close_closed: "closed c \<Longrightarrow> Close c = (None, c)"
  by (simp add: Close_def close_closed)

section \<open>What the input and output paths keep\<close>

lemma io_conn: "io_closed P \<Longrightarrow> P c \<Longrightarrow> P (c\<lparr>conn := s\<rparr>)"
  by (simp add: io_closed_def)

lemma io_writer: "io_closed P \<Longrightarrow> P c \<Longrightarrow> P (c\<lparr>writer := b\<rparr>)"
  by (simp add: io_closed_def)

lemma io_flushCh: "io_closed P \<Longrightarrow> P c \<Longrightarrow> P (c\<lparr>flushCh := k\<rparr>)"
  by (simp add: io_closed_def)

lemma io_close: "io_closed P \<Longrightarrow> P c \<Longrightarrow> P (snd (close c))"
  by (simp add: io_closed_def)

lemma io_closeWithError: "io_closed P \<Longrightarrow> P c \<Longrightarrow> P (snd (closeWithError e c))"
  by (simp add: io_closed_def)

lemma io_bw_Write: "io_closed P \<Longrightarrow> P c \<Longrightarrow> P (snd (bw_Write p c))"
proof -
  assume io: "io_closed P" and p: "P c"
  obtain e b s where "bw_Write p c = (e, c\<lparr>writer := b, conn := s\<rparr>)"
    using bw_Write_frame by blast
  with io_conn [OF io io_writer [OF io p, of b], of s] show ?thesis by simp
qed

lemma io_bw_Flush: "io_closed P \<Longrightarrow> P c \<Longrightarrow> P (snd (bw_Flush c))"
proof -
  assume io: "io_closed P" and p: "P c"
  obtain e b s where "bw_Flush c = (e, c\<lparr>writer := b, conn := s\<rparr>)"
    using bw_Flush_frame by blast
  with io_conn [OF io io_writer [OF io p, of b], of s] show ?thesis by simp
qed

lemma io_write_failed: "io_closed P \<Longrightarrow> P c \<Longrightarrow> P (snd (write_failed e c))"
  using io_closeWithError [of P c e]
  by (cases "closeWithError e c") (auto simp: write_failed_def)

lemma io_signal_flush: "io_closed P \<Longrightarrow> P c \<Longrightarrow> P (signal_flush c)"
  using io_flushCh [of P c 1] by (simp add: signal_flush_def)

lemma io_writePacket: "io_closed P \<Longrightarrow> P c \<Longrightarrow> P (snd (writePacket p c))"
proof -
  assume io: "io_closed P" and p: "P c"
  have bw: "\<And>q b e b'. P b \<Longrightarrow> bw_Write q b = (e, b') \<Longrightarrow> P b'"
    using io_bw_Write [OF io] by (metis snd_conv)
  show ?thesis
    unfolding writePacket_def Let_def
    by (auto split: option.splits prod.splits
        intro!: io_write_failed [OF io] io_signal_flush [OF io] p
        dest: bw [OF p] bw [OF bw [OF p]])
qed

lemma io_WritePacket: "io_closed P \<Longrightarrow> P c \<Longrightarrow> P (snd (WritePacket p c))"
  by (simp add: WritePacket_def io_writePacket)

lemma io_flush: "io_closed P \<Longrightarrow> P c \<Longrightarrow> P (snd (flush c))"
  by (auto simp: flush_def io_bw_Flush split: option.splits)

lemma io_Flush: "io_closed P \<Longrightarrow> P c \<Longrightarrow> P (snd (Flush c))"
proof -
  assume io: "io_closed P" and p: "P c"
  have f: "P (snd (flush c))" by (rule io_flush [OF io p])
  show ?thesis
  proof (cases "flush c")
    case (Pair r c')
    with f have c': "P c'" by simp
    show ?thesis
    proof (cases r)
      case None
      with Pair c' show ?thesis by (simp add: Flush_def)
    next
      case (Some err)
      with Pair io_closeWithError [OF io c', of err] show ?thesis
        by (cases "closeWithError err c'") (simp add: Flush_def)
    qed
  qed
qed

lemma io_Close: "io_closed P \<Longrightarrow> P c \<Longrightarrow> P (snd (Close c))"
  using io_close [of P c] io_conn [of P "snd (close c)"]
  by (cases "close c") (auto simp: Close_def)

lemma io_Raw: "io_closed P \<Longrightarrow> P c \<Longrightarrow> P (Raw c)"
  by (simp add: Raw_def io_close)

lemma io_flushLoop_iter:
  "io_closed P \<Longrightarrow> P c \<Longrightarrow> flushLoop_iter c = Some (go, c') \<Longrightarrow> P c'"
proof -
  assume io: "io_closed P" and p: "P c" and r: "flushLoop_iter c = Some (go, c')"
  have f: "P (snd (flush (c\<lparr>flushCh := flushCh c - 1\<rparr>)))"
    by (rule io_flush [OF io io_flushCh [OF io p]])
  show ?thesis
  proof (cases "flush (c\<lparr>flushCh := flushCh c - 1\<rparr>)")
    case (Pair e c1)
    with f have "P c1" by simp
    with r Pair io_closeWithError [OF io this] p show ?thesis
      by (auto simp: flushLoop_iter_def split: if_splits option.splits)
  qed
qed

lemma io_pingLoop_iter: "io_closed P \<Longrightarrow> P c \<Longrightarrow> P (snd (pingLoop_iter c))"
proof -
  assume io: "io_closed P" and p: "P c"
  have w: "P (snd (writePacket PINGPacket c))" by (rule io_writePacket [OF io p])
  show ?thesis
  proof (cases "writePacket PINGPacket c")
    case (Pair e c1)
    with w have "P c1" by simp
    with Pair io_closeWithError [OF io this] p show ?thesis
      by (auto simp: pingLoop_iter_def split: option.splits)
  qed
qed



section \<open>What the pieces of the read loop keep\<close>

lemma res_all_simps:
  "res_all P g (Cont v) = P (g v)"
  "res_all P g (Exit c) = P c"
  "res_all P g Blocked" "res_all P g Panic" "res_all P g Spin"
  by (simp_all add: res_all_def)

lemma io_rl_fail: "io_closed P \<Longrightarrow> P c \<Longrightarrow> res_all P g (rl_fail e c)"
  by (simp add: rl_fail_def res_all_simps io_closeWithError)

lemma io_rl_fill: "io_closed P \<Longrightarrow> P c \<Longrightarrow> res_all P snd (rl_fill l c)"
  by (simp add: rl_fill_def res_all_simps io_rl_fail io_conn split: read_result.split)

lemma io_rl_refill: "io_closed P \<Longrightarrow> P c \<Longrightarrow> res_all P snd (rl_refill l c)"
  by (simp add: rl_refill_def Let_def res_all_simps io_rl_fail io_conn io_rl_fill
      split: read_result.split)

lemma io_rl_payload: "io_closed P \<Longrightarrow> P c \<Longrightarrow> res_all P (\<lambda>v. snd (snd v)) (rl_payload p l c)"
  by (simp add: rl_payload_def Let_def res_all_simps io_rl_fail io_conn
      split: read_result.split)

text \<open>What the pieces leave alone.\<close>

lemma rl_fill_locals:
  "rl_fill l c = Cont (l', c') \<Longrightarrow>
   rl_isStream l' = rl_isStream l \<and> rl_stream l' = rl_stream l"
  by (auto simp: rl_fill_def rl_fail_def split: if_splits read_result.splits)

lemma rl_refill_locals:
  "rl_refill l c = Cont (l', c') \<Longrightarrow>
   rl_isStream l' = rl_isStream l \<and> rl_stream l' = rl_stream l"
  by (auto simp: rl_refill_def Let_def rl_fail_def split: if_splits read_result.splits
      dest: rl_fill_locals)

lemma rl_payload_Cont:
  "rl_payload p l c = Cont (p', l', c') \<Longrightarrow>
   Metadata p' = Metadata p \<and> rl_isStream l' = rl_isStream l \<and> rl_stream l' = rl_stream l \<and>
   rl_newStreamHandler l' = rl_newStreamHandler l \<and> (\<exists>s. c' = c\<lparr>conn := s\<rparr>)"
  by (auto simp: rl_payload_def Let_def Content_Write_def rl_fail_def
      split: if_splits read_result.splits intro: exI[of _ "conn c"])



section \<open>The error slot is written once\<close>

lemma sticky_refl: "sticky c c"
  by (simp add: sticky_def)

lemma sticky_trans: "sticky a b \<Longrightarrow> sticky b c \<Longrightarrow> sticky a c"
  unfolding sticky_def by metis

lemma sticky_quiet: "sticky a b \<Longrightarrow> closed c = closed b \<Longrightarrow> error c = error b \<Longrightarrow> sticky a c"
  by (simp add: sticky_def)

lemma close_sticky: "sticky c (snd (close c))"
proof (cases "closed c")
  case True
  then show ?thesis by (simp add: close_closed sticky_def)
next
  case False
  from close_open [OF False] obtain b s where "close c =
     (None, c\<lparr>closed := True,
              incoming := (incoming c)\<lparr>q_closed := True, q_items := []\<rparr>,
              stalePackets := q_items (incoming c),
              heap := fold (\<lambda>kv h. h(snd kv := Stream_Close (h (snd kv)))) (streams c) (heap c),
              writer := b, conn := s\<rparr>)" by blast
  then show ?thesis by (simp add: sticky_def)
qed

lemma closeWithError_sticky: "sticky c (snd (closeWithError e c))"
proof (cases "closed c")
  case True
  then show ?thesis by (simp add: closeWithError_closed sticky_def)
next
  case False
  from closeWithError_open [OF False, of e] obtain b s where "closeWithError e c =
     (e, c\<lparr>closed := True,
              incoming := (incoming c)\<lparr>q_closed := True, q_items := []\<rparr>,
              stalePackets := q_items (incoming c),
              heap := fold (\<lambda>kv h. h(snd kv := Stream_Close (h (snd kv)))) (streams c) (heap c),
              writer := b, error := Some e, conn := s\<rparr>)" by blast
  with False show ?thesis by (simp add: sticky_def)
qed

lemma io_sticky: "io_closed (sticky c0)"
  unfolding io_closed_def
proof (intro conjI allI impI)
  fix c s assume "sticky c0 c" then show "sticky c0 (c\<lparr>conn := s\<rparr>)"
    by (simp add: sticky_def)
next
  fix c b assume "sticky c0 c" then show "sticky c0 (c\<lparr>writer := b\<rparr>)"
    by (simp add: sticky_def)
next
  fix c k assume "sticky c0 c" then show "sticky c0 (c\<lparr>flushCh := k\<rparr>)"
    by (simp add: sticky_def)
next
  fix c assume "sticky c0 c" then show "sticky c0 (snd (close c))"
    using close_sticky sticky_trans by blast
next
  fix c e assume "sticky c0 c" then show "sticky c0 (snd (closeWithError e c))"
    using closeWithError_sticky sticky_trans by blast
qed

lemma sticky_rl_route: "sticky c0 c \<Longrightarrow> res_all (sticky c0) snd (rl_route p l c)"
proof -
  assume s: "sticky c0 c"
  have q: "\<And>c'. closed c' = closed c \<Longrightarrow> error c' = error c \<Longrightarrow> sticky c0 c'"
    using s sticky_quiet by blast
  have f: "\<And>c' e. closed c' = closed c \<Longrightarrow> error c' = error c
      \<Longrightarrow> res_all (sticky c0) snd (rl_fail e c' :: (rl_locals \<times> async) res)"
    using q io_rl_fail [OF io_sticky] by blast
  show ?thesis
    unfolding rl_route_def Let_def
    by (auto simp: res_all_simps Streams_Remove_def Streams_Create_def Let_def
        split: sum.split option.split prod.split intro!: q f)
qed

lemma sticky_rl_default: "sticky c0 c \<Longrightarrow> res_all (sticky c0) snd (rl_default p l c)"
proof -
  assume s: "sticky c0 c"
  have pl: "res_all (sticky c0) (\<lambda>v. snd (snd v)) (rl_payload p l c)"
    by (rule io_rl_payload [OF io_sticky s])
  show ?thesis
  proof (cases "rl_payload p l c")
    case (Cont v)
    obtain p' l' c' where v: "v = (p', l', c')" by (cases v) auto
    with Cont pl have "sticky c0 c'" by (simp add: res_all_simps)
    then have "res_all (sticky c0) snd (rl_route p' l' c')" by (rule sticky_rl_route)
    with Cont v show ?thesis
      by (cases "rl_route p' l' c'") (auto simp: rl_default_def res_all_simps)
  next
    case (Exit c')
    with pl show ?thesis by (simp add: rl_default_def res_all_simps)
  qed (simp_all add: rl_default_def res_all_simps)
qed

lemma sticky_rl_switch: "sticky c0 c \<Longrightarrow> res_all (sticky c0) snd (rl_switch p l c)"
proof -
  assume s: "sticky c0 c"
  have w: "sticky c0 (snd (writePacket PONGPacket c))"
    by (rule io_writePacket [OF io_sticky s])
  have ping: "res_all (sticky c0) snd
     (case writePacket PONGPacket c of
        (Some err, c) \<Rightarrow> rl_fail err c
      | (None, c) \<Rightarrow> Cont (l, c\<lparr>pool := pool c @ [p]\<rparr>))"
  proof (cases "writePacket PONGPacket c")
    case (Pair r c1)
    with w have c1: "sticky c0 c1" by simp
    then have "sticky c0 (c1\<lparr>pool := pool c1 @ [p]\<rparr>)" by (simp add: sticky_def)
    with Pair c1 io_rl_fail [OF io_sticky c1] show ?thesis
      by (cases r) (simp_all add: res_all_simps)
  qed
  have pong: "sticky c0 (c\<lparr>pool := pool c @ [p]\<rparr>)"
    using s by (simp add: sticky_def)
  show ?thesis
    unfolding rl_switch_def Let_def
    using ping pong sticky_rl_default [OF s] by (simp add: res_all_simps)
qed

lemma sticky_rl_body: "sticky c0 c \<Longrightarrow> res_all (sticky c0) snd (rl_body l c)"
  by (simp add: rl_body_def sticky_rl_switch res_all_simps split: option.split)

lemma sticky_read_turn: "sticky (ep x) (ep (read_turn x))"
proof -
  let ?r = "if rl_at_refill x then rl_refill (rl x) (ep x)
            else if rl_index (rl x) < rl_n (rl x) then rl_body (rl x) (ep x)
            else rl_fill (rl x) (ep x)"
  have "res_all (sticky (ep x)) snd ?r"
    by (simp add: io_rl_refill [OF io_sticky] io_rl_fill [OF io_sticky] sticky_rl_body sticky_refl)
  then show ?thesis
    by (cases ?r) (auto simp: read_turn_def res_all_simps sticky_refl)
qed

lemma sticky_ReadPacket: "ReadPacket c = Some (r, c') \<Longrightarrow> sticky c c'"
  by (auto simp: ReadPacket_def read_stale_def Poll_def queue_Pop_def sticky_def
      split: if_splits list.splits option.splits sum.splits)

lemma sticky_step: "sticky (ep x) (ep (step a x))"
proof (cases a)
  case (UWritePacket p)
  then show ?thesis by (simp add: io_WritePacket [OF io_sticky] sticky_refl)
next
  case UReadPacket
  then show ?thesis
    by (cases "ReadPacket (ep x)") (auto simp: sticky_refl dest: sticky_ReadPacket)
next
  case UFlush
  then show ?thesis by (simp add: io_Flush [OF io_sticky] sticky_refl)
next
  case UClose
  then show ?thesis by (simp add: io_Close [OF io_sticky] sticky_refl)
next
  case URaw
  then show ?thesis by (simp add: io_Raw [OF io_sticky] sticky_refl)
next
  case (UNewStream i)
  then show ?thesis
    by (auto simp: NewStream_def CreateWithCheckOfExistence_def Streams_Create_def Let_def
        sticky_def split: option.splits)
next
  case (USetNewStreamHandler h)
  then show ?thesis by (simp add: SetNewStreamHandler_def sticky_def)
next
  case LRead
  then show ?thesis by (simp add: sticky_read_turn)
next
  case LFlush
  then show ?thesis
    using io_flushLoop_iter [OF io_sticky sticky_refl, of "ep x"]
    by (cases "flushLoop_iter (ep x)") (auto simp: flush_turn_def sticky_refl)
next
  case LPing
  then show ?thesis
    using io_pingLoop_iter [OF io_sticky sticky_refl, of "ep x"]
    by (cases "pingLoop_iter (ep x)") (auto simp: ping_turn_def sticky_refl)
next
  case (EArrive ev)
  then show ?thesis by (simp add: sticky_def)
next
  case (EFail w d)
  then show ?thesis by (simp add: sticky_def)
qed

lemma sticky_run: "sticky (ep x) (ep (run as x))"
proof (induction as arbitrary: x)
  case Nil
  show ?case by (simp add: sticky_refl)
next
  case (Cons a as)
  have "sticky (ep x) (ep (step a x))" by (rule sticky_step)
  moreover have "sticky (ep (step a x)) (ep (run as (step a x)))" by (rule Cons.IH)
  ultimately show ?case using sticky_trans by simp
qed

lemma reachable_error_closed: "reachable x \<Longrightarrow> error (ep x) \<noteq> None \<Longrightarrow> closed (ep x)"
proof (induction rule: reachable.induct)
  case (reachable_init s k h)
  then show ?case by (simp add: sys_init_def NewAsync_def)
next
  case (reachable_step x a)
  with sticky_step [of x a] show ?case unfolding sticky_def by metis
qed

section \<open>Reading after the close\<close>

lemma Close_open:
  "\<not> closed c \<Longrightarrow> closed (snd (Close c)) \<and> stalePackets (snd (Close c)) = q_items (incoming c)"
proof -
  assume "\<not> closed c"
  from close_open [OF this] obtain b s where "close c =
     (None, c\<lparr>closed := True,
              incoming := (incoming c)\<lparr>q_closed := True, q_items := []\<rparr>,
              stalePackets := q_items (incoming c),
              heap := fold (\<lambda>kv h. h(snd kv := Stream_Close (h (snd kv)))) (streams c) (heap c),
              writer := b, conn := s\<rparr>)" by blast
  then show ?thesis by (simp add: Close_def)
qed

text \<open>
  C4. On a closed endpoint \<open>ReadPacket\<close> returns the oldest stale packet, if there is
  one, and \<open>ConnectionClosed\<close> otherwise; so the calls that follow a close return the
  stale packets one by one in their order and then \<open>ConnectionClosed\<close>. And the stale
  packets after \<open>Close\<close> of an open endpoint are the packets that were in the incoming
  queue, in their order.
\<close>

theorem C4_read_after_close:
  "(closed c \<longrightarrow>
      ReadPacket c = Some (case stalePackets c of
                             [] \<Rightarrow> (Inl ConnectionClosed, c)
                           | p # ps \<Rightarrow> (Inr p, c\<lparr>stalePackets := ps\<rparr>))) \<and>
   (closed c \<longrightarrow>
      map_option fst (ReadPackets (Suc (length (stalePackets c))) c)
        = Some (map Inr (stalePackets c) @ [Inl ConnectionClosed])) \<and>
   (\<not> closed c \<longrightarrow>
      closed (snd (Close c)) \<and> stalePackets (snd (Close c)) = q_items (incoming c))"
  using ReadPacket_closed [of c] ReadPackets_stale [of c "stalePackets c"] Close_open [of c]
  by simp

theorem C4_read_after_close_witness:
  "\<not> closed c_two \<and> closed (snd (Close c_two)) \<and>
   stalePackets (snd (Close c_two)) = [mk_packet 1 32 0 [], mk_packet 2 33 1 [7]] \<and>
   ReadPacket (snd (Close c_two))
     = Some (Inr (mk_packet 1 32 0 []),
             (snd (Close c_two))\<lparr>stalePackets := [mk_packet 2 33 1 [7]]\<rparr>) \<and>
   map_option fst (ReadPackets 3 (snd (Close c_two)))
     = Some [Inr (mk_packet 1 32 0 []), Inr (mk_packet 2 33 1 [7]), Inl ConnectionClosed]"
proof -
  have o: "\<not> closed c_two"
    by (simp add: c_two_def NewAsync_def)
  have q: "q_items (incoming c_two) = [mk_packet 1 32 0 [], mk_packet 2 33 1 [7]]"
    by (simp add: c_two_def)
  from o C4_read_after_close [of c_two]
  have cl: "closed (snd (Close c_two))"
    and st: "stalePackets (snd (Close c_two)) = [mk_packet 1 32 0 [], mk_packet 2 33 1 [7]]"
    by (simp_all add: q)
  note t = C4_read_after_close [of "snd (Close c_two)"]
  from cl t have r1: "ReadPacket (snd (Close c_two))
     = Some (case stalePackets (snd (Close c_two)) of
               [] \<Rightarrow> (Inl ConnectionClosed, snd (Close c_two))
             | p # ps \<Rightarrow> (Inr p, (snd (Close c_two))\<lparr>stalePackets := ps\<rparr>))"
    by blast
  from cl t have r2: "map_option fst (ReadPackets (Suc (length (stalePackets (snd (Close c_two)))))
               (snd (Close c_two)))
     = Some (map Inr (stalePackets (snd (Close c_two))) @ [Inl ConnectionClosed])"
    by blast
  have n3: "Suc (length [mk_packet 1 32 0 [], mk_packet 2 33 1 [7]]) = 3"
    by simp
  have m3: "map Inr [mk_packet 1 32 0 [], mk_packet 2 33 1 [7]] @ [Inl ConnectionClosed]
      = [Inr (mk_packet 1 32 0 []), Inr (mk_packet 2 33 1 [7]),
         (Inl ConnectionClosed :: frisbee_error + packet)]"
    by simp
  have c3: "(case [mk_packet 1 32 0 [], mk_packet 2 33 1 [7]] of
               [] \<Rightarrow> (Inl ConnectionClosed, snd (Close c_two))
             | p # ps \<Rightarrow> (Inr p, (snd (Close c_two))\<lparr>stalePackets := ps\<rparr>))
      = (Inr (mk_packet 1 32 0 []), (snd (Close c_two))\<lparr>stalePackets := [mk_packet 2 33 1 [7]]\<rparr>)"
    by simp
  note r1 = r1 [unfolded st c3]
  note r3 = r2 [unfolded st n3 m3]
  from o cl st r1 r3 show ?thesis by blast
qed

section \<open>The error of an error-close stays\<close>

text \<open>
  C8. \<open>closeWithError\<close> with cause \<open>e\<close> on an open endpoint closes it and stores \<open>e\<close>,
  which \<open>Error\<close> returns; on a closed endpoint \<open>closeWithError\<close> returns
  \<open>ConnectionClosed\<close> and \<open>Close\<close> returns nil, both leaving the endpoint, and with it
  the error slot, as it was; and in a reachable state where the error slot holds \<open>e\<close>, it
  holds \<open>e\<close> after any further steps of the user, the loops and the network.
\<close>

theorem C8_error_close_sticky:
  "(\<not> closed c \<longrightarrow> (\<exists>c'. closeWithError e c = (e, c') \<and> closed c' \<and> Error c' = Some e)) \<and>
   (closed c \<longrightarrow> closeWithError e' c = (ConnectionClosed, c) \<and> Close c = (None, c)) \<and>
   (reachable x \<and> Error (ep x) = Some e \<longrightarrow>
      closed (ep (run as x)) \<and> Error (ep (run as x)) = Some e)"
proof (intro conjI impI)
  assume "\<not> closed c"
  from closeWithError_open [OF this, of e]
  show "\<exists>c'. closeWithError e c = (e, c') \<and> closed c' \<and> Error c' = Some e"
    by (auto simp: Error_def)
next
  assume "closed c"
  then show "closeWithError e' c = (ConnectionClosed, c)"
    by (rule closeWithError_closed)
next
  assume "closed c"
  then show "Close c = (None, c)"
    by (rule Close_closed)
next
  assume a: "reachable x \<and> Error (ep x) = Some e"
  then have cl: "closed (ep x)"
    using reachable_error_closed [of x] by (simp add: Error_def)
  with sticky_run [of x as] show "closed (ep (run as x))"
    by (simp add: sticky_def)
next
  assume a: "reachable x \<and> Error (ep x) = Some e"
  then have cl: "closed (ep x)"
    using reachable_error_closed [of x] by (simp add: Error_def)
  with sticky_run [of x as] a show "Error (ep (run as x)) = Some e"
    by (simp add: sticky_def Error_def)
qed

lemma x_broken_ep:
  "ep x_broken = (NewAsync sock0 16 None)
     \<lparr>closed := True, incoming := \<lparr> q_items = [], q_closed = True, q_cap = 16 \<rparr>,
      error := Some (IOError 1), conn := sock0\<lparr>sock_closed := True\<rparr>\<rparr>"
  by (simp add: x_broken_def sys_init_def read_turn_def rl_init_def rl_fill_def Size_def
      ContentLengthOffset_def ContentLengthSize_def OperationOffset_def OperationSize_def
      IdOffset_def IdSize_def read_min.simps conn_SetDeadline_def conn_Read_def sock0_def
      NewAsync_def rl_fail_def closeWithError_def close_def Let_def queue_Close_def
      queue_Drain_def Packets_Set_def CloseAll_def Buffered_def NewWriterSize_def
      conn_Close_def NewCircular_def)

theorem C8_error_close_sticky_witness:
  "\<not> closed c_two \<and>
   (\<exists>c'. closeWithError (IOError 1) c_two = (IOError 1, c') \<and> closed c' \<and>
         Error c' = Some (IOError 1)) \<and>
   closed (ep x_broken) \<and>
   closeWithError (IOError 2) (ep x_broken) = (ConnectionClosed, ep x_broken) \<and>
   Close (ep x_broken) = (None, ep x_broken) \<and>
   reachable x_broken \<and> Error (ep x_broken) = Some (IOError 1) \<and>
   Error (ep (run [UClose, LPing, UWritePacket (mk_packet 1 32 0 [])] x_broken))
     = Some (IOError 1)"
proof -
  have o: "\<not> closed c_two"
    by (simp add: c_two_def NewAsync_def)
  have cl: "closed (ep x_broken)"
    by (simp add: x_broken_ep)
  have re: "reachable x_broken"
    unfolding x_broken_def by (intro reachable_step reachable_init)
  have er: "Error (ep x_broken) = Some (IOError 1)"
    by (simp add: x_broken_ep Error_def)
  from o cl re er
    C8_error_close_sticky [of c_two "IOError 1" "IOError 2" x_broken
      "[UClose, LPing, UWritePacket (mk_packet 1 32 0 [])]"]
    C8_error_close_sticky [of "ep x_broken" "IOError 1" "IOError 2" x_broken "[]"]
  show ?thesis by blast
qed

section \<open>Stream frames in the read loop\<close>

lemma map_of_filter_fst:
  "map_of (filter (\<lambda>kv. fst kv \<noteq> i) xs) j = (if j = i then None else map_of xs j)"
  by (induction xs) auto

lemma op_distinct: "PING \<noteq> STREAM" "PONG \<noteq> STREAM" "PING \<noteq> PONG"
  by (simp_all add: PING_def PONG_def STREAM_def)

text \<open>
  C3. When the frame parsed is a STREAM frame with content length 0 and its id has a
  stream in the registry, the turn of the read loop goes on, having closed that stream
  (flag and queue), removed the id from the registry and handed the packet to the pool;
  the endpoint is otherwise as it was, not closed. Nothing is assumed about the
  new-stream handler: it holds with one installed and with none.
\<close>

theorem C3_stream_close_sentinel:
  assumes "rl_parse l = Some p"
    and "Operation (Metadata p) = STREAM"
    and "ContentLength (Metadata p) = 0"
    and "Streams_Get (Id_md (Metadata p)) c = Some a"
  shows "\<exists>l' c'. rl_body l c = Cont (l', c') \<and>
           c' = c\<lparr>heap := (heap c)(a := stream_close (heap c a)),
                  streams := filter (\<lambda>kv. fst kv \<noteq> Id_md (Metadata p)) (streams c),
                  pool := pool c @ [p]\<rparr> \<and>
           stream_closed (heap c' a) \<and> q_closed (stream_queue (heap c' a)) \<and>
           Streams_Get (Id_md (Metadata p)) c' = None \<and>
           pool c' = pool c @ [p] \<and>
           closed c' = closed c \<and> error c' = error c"
  using assms op_distinct
  by (simp add: rl_body_def rl_switch_def rl_default_def rl_payload_def rl_route_def Let_def
      Streams_Remove_def Streams_Get_def map_of_filter_fst stream_close_def queue_Close_def)

lemma parse_sentinel: "rl_parse l_sentinel = Some (mk_packet 7 STREAM 0 [])"
  by (simp add: rl_parse_def l_sentinel_def rl_init_def layout_defs go_slice_def Uint16_def
      Uint32_def packet_Get_def mk_packet_def STREAM_def)

lemma get_stream7: "Streams_Get 7 c_stream7 = Some 0"
  by (simp add: c_stream7_def NewStream_def CreateWithCheckOfExistence_def Streams_Create_def
      Streams_Get_def NewAsync_def Let_def)

theorem C3_stream_close_sentinel_witness:
  "rl_parse l_sentinel = Some (mk_packet 7 STREAM 0 []) \<and>
   Streams_Get 7 c_stream7 = Some 0 \<and> newStreamHandler c_stream7 = None \<and>
   \<not> stream_closed (heap c_stream7 0) \<and>
   (\<exists>l' c'. rl_body l_sentinel c_stream7 = Cont (l', c') \<and>
      stream_closed (heap c' 0) \<and> Streams_Get 7 c' = None \<and>
      pool c' = [mk_packet 7 STREAM 0 []] \<and> \<not> closed c')"
proof -
  have h1: "Operation (Metadata (mk_packet 7 STREAM 0 [])) = STREAM"
    and h2: "ContentLength (Metadata (mk_packet 7 STREAM 0 [])) = 0"
    and h3: "Streams_Get (Id_md (Metadata (mk_packet 7 STREAM 0 []))) c_stream7 = Some 0"
    by (simp_all add: mk_packet_def get_stream7)
  have f: "newStreamHandler c_stream7 = None \<and> \<not> stream_closed (heap c_stream7 0) \<and>
           pool c_stream7 = [] \<and> \<not> closed c_stream7"
    by (simp add: c_stream7_def NewStream_def CreateWithCheckOfExistence_def Streams_Create_def
        NewAsync_def Let_def newStream_def)
  from C3_stream_close_sentinel [OF parse_sentinel h1 h2 h3]
  obtain l' c' where "rl_body l_sentinel c_stream7 = Cont (l', c')"
    "stream_closed (heap c' 0)"
    "Streams_Get (Id_md (Metadata (mk_packet 7 STREAM 0 []))) c' = None"
    "pool c' = pool c_stream7 @ [mk_packet 7 STREAM 0 []]" "closed c' = closed c_stream7"
    by blast
  with f parse_sentinel get_stream7 show ?thesis
    by (auto simp: mk_packet_def)
qed

lemma fold_close_items:
  "q_items (stream_queue (fold (\<lambda>kv h. h(snd kv := Stream_Close (h (snd kv)))) xs h a))
     = q_items (stream_queue (h a))"
  by (induction xs arbitrary: h)
     (simp_all add: Stream_Close_def stream_close_def queue_Close_def)

lemma fold_close_id:
  "stream_id (fold (\<lambda>kv h. h(snd kv := Stream_Close (h (snd kv)))) xs h a) = stream_id (h a)"
  by (induction xs arbitrary: h)
     (simp_all add: Stream_Close_def stream_close_def queue_Close_def)

lemma closeWithError_queues:
  "set (q_items (incoming (snd (closeWithError e c)))) \<subseteq> set (q_items (incoming c)) \<and>
   set (stalePackets (snd (closeWithError e c)))
     \<subseteq> set (stalePackets c) \<union> set (q_items (incoming c)) \<and>
   (\<forall>a. q_items (stream_queue (heap (snd (closeWithError e c)) a))
          = q_items (stream_queue (heap c a)))"
proof (cases "closed c")
  case True
  then show ?thesis by (simp add: closeWithError_closed)
next
  case False
  from closeWithError_open [OF False, of e] obtain b s where "closeWithError e c =
     (e, c\<lparr>closed := True,
              incoming := (incoming c)\<lparr>q_closed := True, q_items := []\<rparr>,
              stalePackets := q_items (incoming c),
              heap := fold (\<lambda>kv h. h(snd kv := Stream_Close (h (snd kv)))) (streams c) (heap c),
              writer := b, error := Some e, conn := s\<rparr>)" by blast
  then show ?thesis by (simp add: fold_close_items)
qed

lemma rl_payload_Exit:
  "rl_payload p l c = Exit c' \<Longrightarrow> \<exists>e s. c' = snd (closeWithError e (c\<lparr>conn := s\<rparr>))"
  by (auto simp: rl_payload_def Let_def rl_fail_def split: if_splits read_result.splits)

lemma rl_body_parsed:
  "rl_parse l = Some p \<Longrightarrow> rl_body l c = rl_switch p (l\<lparr>rl_index := rl_index l + Size\<rparr>) c"
  by (simp add: rl_body_def)

lemma rl_switch_stream_no_handler:
  "Operation (Metadata p) = STREAM \<Longrightarrow> ContentLength (Metadata p) \<noteq> 0 \<Longrightarrow>
   newStreamHandler c = None \<Longrightarrow>
   rl_switch p l c =
     (case rl_payload p (l\<lparr>rl_isStream := True, rl_newStreamHandler := None\<rparr>) c of
        Cont (p', l', c') \<Rightarrow>
          Cont (l'\<lparr>rl_newStreamHandler := None, rl_stream := None, rl_isStream := False\<rparr>,
                c'\<lparr>pool := pool c' @ [p']\<rparr>)
      | Exit c' \<Rightarrow> Exit c' | Blocked \<Rightarrow> Blocked | Panic \<Rightarrow> Panic | Spin \<Rightarrow> Spin)"
proof -
  assume a: "Operation (Metadata p) = STREAM" "ContentLength (Metadata p) \<noteq> 0"
    "newStreamHandler c = None"
  let ?l = "l\<lparr>rl_isStream := True, rl_newStreamHandler := None\<rparr>"
  have sw: "rl_switch p l c = rl_default p ?l c"
    using a op_distinct by (simp add: rl_switch_def Let_def)
  have rt: "\<And>p' l' c'. rl_payload p ?l c = Cont (p', l', c') \<Longrightarrow>
      rl_route p' l' c' = Cont (l', c'\<lparr>pool := pool c' @ [p']\<rparr>)"
  proof -
    fix p' l' c' assume "rl_payload p ?l c = Cont (p', l', c')"
    from rl_payload_Cont [OF this] a show "rl_route p' l' c' = Cont (l', c'\<lparr>pool := pool c' @ [p']\<rparr>)"
      by (simp add: rl_route_def)
  qed
  show ?thesis
    unfolding sw rl_default_def
    by (cases "rl_payload p ?l c") (auto simp: rt)
qed

text \<open>
  C9. When the frame parsed is a STREAM frame with content length above 0 and no
  new-stream handler is installed: if the turn of the read loop goes on, the packet
  (with the payload read) has been handed to the pool and the incoming queue, the stale
  packets, every stream and its queue, the registry, \<open>closed\<close> and the error slot are as
  they were; if the loop returns instead (reading the payload failed), no queue has
  gained a packet; and when the payload is in the buffer the turn does go on, with the
  result given.
\<close>

theorem C9_stream_packet_dropped_without_handler:
  assumes "rl_parse l = Some p"
    and "Operation (Metadata p) = STREAM"
    and "ContentLength (Metadata p) \<noteq> 0"
    and "newStreamHandler c = None"
  shows
   "(\<forall>l' c'. rl_body l c = Cont (l', c') \<longrightarrow>
       (\<exists>bs. pool c' = pool c @ [p\<lparr>Content := bs\<rparr>]) \<and>
       incoming c' = incoming c \<and> stalePackets c' = stalePackets c \<and>
       heap c' = heap c \<and> streams c' = streams c \<and>
       closed c' = closed c \<and> error c' = error c) \<and>
    (\<forall>c'. rl_body l c = Exit c' \<longrightarrow>
       set (q_items (incoming c')) \<subseteq> set (q_items (incoming c)) \<and>
       set (stalePackets c') \<subseteq> set (stalePackets c) \<union> set (q_items (incoming c)) \<and>
       (\<forall>a. q_items (stream_queue (heap c' a)) = q_items (stream_queue (heap c a)))) \<and>
    (rl_index l + Size + unat (ContentLength (Metadata p)) \<le> rl_n l \<and>
     rl_n l \<le> length (rl_buf l) \<longrightarrow>
       rl_body l c =
         Cont (l\<lparr>rl_index := rl_index l + Size + unat (ContentLength (Metadata p)),
                 rl_newStreamHandler := None, rl_stream := None, rl_isStream := False\<rparr>,
               c\<lparr>pool := pool c @
                  [Content_Write (go_slice (rl_buf l) (rl_index l + Size)
                     (rl_index l + Size + unat (ContentLength (Metadata p)))) p]\<rparr>))"
proof (intro conjI allI impI)
  let ?l = "l\<lparr>rl_index := rl_index l + Size, rl_isStream := True, rl_newStreamHandler := None\<rparr>"
  note body = rl_body_parsed [OF assms(1), of c]
    rl_switch_stream_no_handler [OF assms(2,3,4), of "l\<lparr>rl_index := rl_index l + Size\<rparr>"]
  {
    fix l' c' assume r: "rl_body l c = Cont (l', c')"
    then obtain p1 l1 c1 where pl: "rl_payload p ?l c = Cont (p1, l1, c1)"
      and c': "c' = c1\<lparr>pool := pool c1 @ [p1]\<rparr>"
      unfolding body by (cases "rl_payload p ?l c") auto
    from rl_payload_Cont [OF pl] obtain s where m: "Metadata p1 = Metadata p"
      and c1: "c1 = c\<lparr>conn := s\<rparr>" by blast
    from m have p1: "p1 = p\<lparr>Content := Content p1\<rparr>" by simp
    show "\<exists>bs. pool c' = pool c @ [p\<lparr>Content := bs\<rparr>]"
      using c' c1 p1 by (intro exI[of _ "Content p1"]) simp
    show "incoming c' = incoming c" "stalePackets c' = stalePackets c" "heap c' = heap c"
      "streams c' = streams c" "closed c' = closed c" "error c' = error c"
      using c' c1 by simp_all
  }
  {
    fix c' assume r: "rl_body l c = Exit c'"
    then have "rl_payload p ?l c = Exit c'"
      unfolding body by (cases "rl_payload p ?l c") auto
    from rl_payload_Exit [OF this] obtain e s
      where c': "c' = snd (closeWithError e (c\<lparr>conn := s\<rparr>))" by blast
    from closeWithError_queues [of e "c\<lparr>conn := s\<rparr>"]
    show "set (q_items (incoming c')) \<subseteq> set (q_items (incoming c))"
      "set (stalePackets c') \<subseteq> set (stalePackets c) \<union> set (q_items (incoming c))"
      unfolding c' by simp_all
    fix a
    from closeWithError_queues [of e "c\<lparr>conn := s\<rparr>"]
    show "q_items (stream_queue (heap c' a)) = q_items (stream_queue (heap c a))"
      unfolding c' by simp
  }
  {
    assume fits: "rl_index l + Size + unat (ContentLength (Metadata p)) \<le> rl_n l \<and>
      rl_n l \<le> length (rl_buf l)"
    from assms(3) have pos: "0 < unat (ContentLength (Metadata p))"
      by (simp add: unat_gt_0)
    have "rl_payload p ?l c =
        Cont (Content_Write (go_slice (rl_buf l) (rl_index l + Size)
                (rl_index l + Size + unat (ContentLength (Metadata p)))) p,
              ?l\<lparr>rl_index := rl_index l + Size + unat (ContentLength (Metadata p))\<rparr>, c)"
      using fits pos by (simp add: rl_payload_def Let_def)
    then show "rl_body l c =
         Cont (l\<lparr>rl_index := rl_index l + Size + unat (ContentLength (Metadata p)),
                 rl_newStreamHandler := None, rl_stream := None, rl_isStream := False\<rparr>,
               c\<lparr>pool := pool c @
                  [Content_Write (go_slice (rl_buf l) (rl_index l + Size)
                     (rl_index l + Size + unat (ContentLength (Metadata p)))) p]\<rparr>)"
      unfolding body by simp
  }
qed

lemma parse_drop: "rl_parse l_drop = Some (mk_packet 7 STREAM 2 [])"
  by (simp add: rl_parse_def l_drop_def rl_init_def layout_defs go_slice_def Uint16_def
      Uint32_def packet_Get_def mk_packet_def STREAM_def)

lemma parse_cut: "rl_parse l_cut = Some (mk_packet 7 STREAM 2 [])"
  by (simp add: rl_parse_def l_cut_def rl_init_def layout_defs go_slice_def Uint16_def
      Uint32_def packet_Get_def mk_packet_def STREAM_def)

lemma body_cut: "\<exists>c'. rl_body l_cut c_fail = Exit c'"
proof -
  have "rl_body l_cut c_fail
      = rl_switch (mk_packet 7 STREAM 2 []) (l_cut\<lparr>rl_index := rl_index l_cut + Size\<rparr>) c_fail"
    by (rule rl_body_parsed [OF parse_cut])
  also have "\<dots> = rl_default (mk_packet 7 STREAM 2 [])
      (l_cut\<lparr>rl_index := 8, rl_isStream := True, rl_newStreamHandler := None\<rparr>) c_fail"
    using op_distinct
    by (simp add: rl_switch_def mk_packet_def Let_def c_fail_def NewAsync_def l_cut_def
        rl_init_def layout_defs)
  also have "\<exists>c'. \<dots> = Exit c'"
    by (simp add: rl_default_def rl_payload_def mk_packet_def l_cut_def rl_init_def
        grow_buf.simps read_min.simps conn_SetDeadline_def conn_Read_def sock0_def
        c_fail_def NewAsync_def rl_fail_def Content_Write_def go_slice_def)
  finally show ?thesis .
qed

theorem C9_stream_packet_dropped_without_handler_witness:
  "rl_parse l_drop = Some (mk_packet 7 STREAM 2 []) \<and>
   newStreamHandler (NewAsync sock0 16 None) = None \<and>
   rl_body l_drop (NewAsync sock0 16 None)
     = Cont (l_drop\<lparr>rl_index := 10\<rparr>,
             (NewAsync sock0 16 None)\<lparr>pool := [mk_packet 7 STREAM 2 [5, 6]]\<rparr>) \<and>
   q_items (incoming (NewAsync sock0 16 None)) = [] \<and>
   \<not> closed (NewAsync sock0 16 None) \<and>
   (\<exists>c'. rl_body l_cut c_fail = Exit c' \<and> q_items (incoming c') = [] \<and>
         q_items (stream_queue (heap c' 0)) = [])"
proof -
  let ?p = "mk_packet 7 STREAM 2 []"
  let ?c = "NewAsync sock0 16 None"
  have h2: "Operation (Metadata ?p) = STREAM"
    and h3: "ContentLength (Metadata ?p) \<noteq> 0"
    and h4: "newStreamHandler ?c = None" and h4': "newStreamHandler c_fail = None"
    by (simp_all add: mk_packet_def NewAsync_def c_fail_def)
  note t = C9_stream_packet_dropped_without_handler [OF parse_drop h2 h3 h4]
  have fits: "rl_index l_drop + Size + unat (ContentLength (Metadata ?p)) \<le> rl_n l_drop \<and>
      rl_n l_drop \<le> length (rl_buf l_drop)"
    by (simp add: l_drop_def rl_init_def layout_defs mk_packet_def)
  from t fits have "rl_body l_drop ?c =
         Cont (l_drop\<lparr>rl_index := rl_index l_drop + Size + unat (ContentLength (Metadata ?p)),
                 rl_newStreamHandler := None, rl_stream := None, rl_isStream := False\<rparr>,
               ?c\<lparr>pool := pool ?c @
                  [Content_Write (go_slice (rl_buf l_drop) (rl_index l_drop + Size)
                     (rl_index l_drop + Size + unat (ContentLength (Metadata ?p)))) ?p]\<rparr>)"
    by blast
  then have b: "rl_body l_drop ?c
     = Cont (l_drop\<lparr>rl_index := 10\<rparr>, ?c\<lparr>pool := [mk_packet 7 STREAM 2 [5, 6]]\<rparr>)"
    by (simp add: l_drop_def rl_init_def layout_defs mk_packet_def NewAsync_def
        Content_Write_def go_slice_def)
  have e: "q_items (incoming ?c) = [] \<and> \<not> closed ?c \<and> q_items (incoming c_fail) = [] \<and>
      q_items (stream_queue (heap c_fail 0)) = []"
    by (simp add: NewAsync_def NewCircular_def c_fail_def newStream_def)
  note t2 = C9_stream_packet_dropped_without_handler [OF parse_cut h2 h3 h4']
  from body_cut obtain c' where x: "rl_body l_cut c_fail = Exit c'" by blast
  with t2 e have "q_items (incoming c') = [] \<and> q_items (stream_queue (heap c' 0)) = []"
    by auto
  with x have "\<exists>c'. rl_body l_cut c_fail = Exit c' \<and> q_items (incoming c') = [] \<and>
         q_items (stream_queue (heap c' 0)) = []" by blast
  with parse_drop h4 b e show ?thesis by blast
qed

lemma rl_switch_ping:
  "Operation (Metadata p) = PING \<Longrightarrow>
   rl_switch p l c =
     (case writePacket PONGPacket c of
        (Some err, c1) \<Rightarrow> Exit (snd (closeWithError err c1))
      | (None, c1) \<Rightarrow> Cont (l, c1\<lparr>pool := pool c1 @ [p]\<rparr>))"
  by (simp add: rl_switch_def rl_fail_def split: prod.split option.split)

lemma PONG_header:
  "put_bytes ContentLengthOffset (PutUint32 (ContentLength (Metadata PONGPacket)))
     (put_bytes OperationOffset (PutUint16 (Operation (Metadata PONGPacket)))
       (put_bytes IdOffset (PutUint16 (Id_md (Metadata PONGPacket))) NewBuffer))
   = [0, 0, 0, 11, 0, 0, 0, 0]"
  by (simp add: PONGPacket_def PONG_def put_bytes_def NewBuffer_def layout_defs PutUint16_def
      PutUint32_def)

lemma bufio_Write_fits:
  "bw_err b = None \<Longrightarrow> length p \<le> bw_size b - length (bw_buf b) \<Longrightarrow>
   bufio_Write p (b, s) = (None, b\<lparr>bw_buf := bw_buf b @ p\<rparr>, s)"
  by (simp add: bufio_Write_def)

lemma writePacket_PONG_healthy:
  "\<not> closed c \<Longrightarrow> \<not> sock_closed (conn c) \<Longrightarrow> sock_dl_err (conn c) = None \<Longrightarrow>
   bw_err (writer c) = None \<Longrightarrow> length (bw_buf (writer c)) + 8 \<le> bw_size (writer c) \<Longrightarrow>
   writePacket PONGPacket c =
     (None, signal_flush
        (c\<lparr>writer := (writer c)\<lparr>bw_buf := bw_buf (writer c) @ [0, 0, 0, 11, 0, 0, 0, 0]\<rparr>\<rparr>))"
proof -
  assume a: "\<not> closed c" "\<not> sock_closed (conn c)" "sock_dl_err (conn c) = None"
    "bw_err (writer c) = None" "length (bw_buf (writer c)) + 8 \<le> bw_size (writer c)"
  have "length [0, 0, 0, 11, 0, 0, 0, 0 :: byte] \<le> bw_size (writer c) - length (bw_buf (writer c))"
    using a by simp
  then have "bufio_Write [0, 0, 0, 11, 0, 0, 0, 0] (writer c, conn c) =
      (None, (writer c)\<lparr>bw_buf := bw_buf (writer c) @ [0, 0, 0, 11, 0, 0, 0, 0]\<rparr>, conn c)"
    using a(4) by (rule_tac bufio_Write_fits)
  then have w: "bw_Write [0, 0, 0, 11, 0, 0, 0, 0] c =
      (None, c\<lparr>writer := (writer c)\<lparr>bw_buf := bw_buf (writer c) @ [0, 0, 0, 11, 0, 0, 0, 0]\<rparr>\<rparr>)"
    by (simp add: bw_Write_def)
  have m: "unat (ContentLength (Metadata PONGPacket)) = length (Content PONGPacket)"
    "ContentLength (Metadata PONGPacket) = 0" "Content PONGPacket = []"
    by (simp_all add: PONGPacket_def)
  show ?thesis
    unfolding writePacket_def Let_def PONG_header
    using a by (simp add: m w conn_SetDeadline_def)
qed

section \<open>PING frames in the read loop\<close>

text \<open>
  C2, as amended. When the frame parsed is a PING frame, the turn of the read loop
  writes the PONG packet through \<open>writePacket\<close>; if that fails the loop error-closes and
  returns; if it succeeds the parsed packet is handed to the pool and the loop goes on
  with \<open>index\<close> advanced by the 8 bytes of the header and by nothing else, with the
  buffer and the socket's input untouched: no payload is consumed, whatever the content
  length says. On a healthy open endpoint with room in the writer the write succeeds and
  the 8 header bytes of PONG are appended to the writer's buffer.
\<close>

theorem C2_ping_answered_header_only:
  assumes "rl_parse l = Some p" and "Operation (Metadata p) = PING"
  shows "rl_body l c =
           (case writePacket PONGPacket c of
              (Some err, c1) \<Rightarrow> Exit (snd (closeWithError err c1))
            | (None, c1) \<Rightarrow> Cont (l\<lparr>rl_index := rl_index l + Size\<rparr>, c1\<lparr>pool := pool c1 @ [p]\<rparr>)) \<and>
         (\<not> closed c \<and> \<not> sock_closed (conn c) \<and> sock_dl_err (conn c) = None \<and>
          bw_err (writer c) = None \<and> length (bw_buf (writer c)) + 8 \<le> bw_size (writer c) \<longrightarrow>
          rl_body l c =
            Cont (l\<lparr>rl_index := rl_index l + Size\<rparr>,
                  (signal_flush
                    (c\<lparr>writer := (writer c)\<lparr>bw_buf := bw_buf (writer c) @ [0, 0, 0, 11, 0, 0, 0, 0]\<rparr>\<rparr>))
                  \<lparr>pool := pool c @ [p]\<rparr>))"
proof (intro conjI impI)
  show b: "rl_body l c =
           (case writePacket PONGPacket c of
              (Some err, c1) \<Rightarrow> Exit (snd (closeWithError err c1))
            | (None, c1) \<Rightarrow> Cont (l\<lparr>rl_index := rl_index l + Size\<rparr>, c1\<lparr>pool := pool c1 @ [p]\<rparr>))"
    by (simp add: rl_body_parsed [OF assms(1)] rl_switch_ping [OF assms(2)])
  assume "\<not> closed c \<and> \<not> sock_closed (conn c) \<and> sock_dl_err (conn c) = None \<and>
          bw_err (writer c) = None \<and> length (bw_buf (writer c)) + 8 \<le> bw_size (writer c)"
  then have "writePacket PONGPacket c =
     (None, signal_flush
        (c\<lparr>writer := (writer c)\<lparr>bw_buf := bw_buf (writer c) @ [0, 0, 0, 11, 0, 0, 0, 0]\<rparr>\<rparr>))"
    by (simp add: writePacket_PONG_healthy)
  with b show "rl_body l c =
            Cont (l\<lparr>rl_index := rl_index l + Size\<rparr>,
                  (signal_flush
                    (c\<lparr>writer := (writer c)\<lparr>bw_buf := bw_buf (writer c) @ [0, 0, 0, 11, 0, 0, 0, 0]\<rparr>\<rparr>))
                  \<lparr>pool := pool c @ [p]\<rparr>)"
    by (simp add: signal_flush_def)
qed

lemma parse_ping: "rl_parse l_ping = Some (mk_packet 0 PING 8 [])"
  by (simp add: rl_parse_def l_ping_def rl_init_def layout_defs go_slice_def Uint16_def
      Uint32_def packet_Get_def mk_packet_def PING_def)

lemma c0_healthy:
  "\<not> closed (NewAsync sock0 16 None) \<and> \<not> sock_closed (conn (NewAsync sock0 16 None)) \<and>
   sock_dl_err (conn (NewAsync sock0 16 None)) = None \<and>
   bw_err (writer (NewAsync sock0 16 None)) = None \<and>
   length (bw_buf (writer (NewAsync sock0 16 None))) + 8 \<le> bw_size (writer (NewAsync sock0 16 None))"
  by (simp add: NewAsync_def sock0_def NewWriterSize_def)

lemma body_ping:
  "rl_body l_ping (NewAsync sock0 16 None) =
     Cont (l_ping\<lparr>rl_index := 8\<rparr>,
           (NewAsync sock0 16 None)
           \<lparr>writer := \<lparr> bw_buf = [0, 0, 0, 11, 0, 0, 0, 0], bw_size = 16, bw_err = None \<rparr>,
            flushCh := 1, pool := [mk_packet 0 PING 8 []]\<rparr>)"
proof -
  have h: "Operation (Metadata (mk_packet 0 PING 8 [])) = PING"
    by (simp add: mk_packet_def)
  have "rl_body l_ping (NewAsync sock0 16 None) =
      Cont (l_ping\<lparr>rl_index := rl_index l_ping + Size\<rparr>,
            (signal_flush
               ((NewAsync sock0 16 None)\<lparr>writer := (writer (NewAsync sock0 16 None))
                  \<lparr>bw_buf := bw_buf (writer (NewAsync sock0 16 None)) @ [0, 0, 0, 11, 0, 0, 0, 0]\<rparr>\<rparr>))
            \<lparr>pool := pool (NewAsync sock0 16 None) @ [mk_packet 0 PING 8 []]\<rparr>)"
    using c0_healthy
    by (simp add: rl_body_parsed [OF parse_ping] rl_switch_ping [OF h]
        writePacket_PONG_healthy signal_flush_def)
  then show ?thesis
    by (simp add: l_ping_def rl_init_def layout_defs signal_flush_def NewAsync_def NewWriterSize_def)
qed

theorem C2_ping_answered_header_only_witness:
  "rl_parse l_ping = Some (mk_packet 0 PING 8 []) \<and>
   Operation (Metadata (mk_packet 0 PING 8 [])) = PING \<and>
   \<not> closed (NewAsync sock0 16 None) \<and>
   rl_body l_ping (NewAsync sock0 16 None) =
     Cont (l_ping\<lparr>rl_index := 8\<rparr>,
           (NewAsync sock0 16 None)
           \<lparr>writer := \<lparr> bw_buf = [0, 0, 0, 11, 0, 0, 0, 0], bw_size = 16, bw_err = None \<rparr>,
            flushCh := 1, pool := [mk_packet 0 PING 8 []]\<rparr>)"
proof -
  have h: "Operation (Metadata (mk_packet 0 PING 8 [])) = PING"
    by (simp add: mk_packet_def)
  from C2_ping_answered_header_only [OF parse_ping h, of "NewAsync sock0 16 None"] c0_healthy
  have "rl_body l_ping (NewAsync sock0 16 None) =
            Cont (l_ping\<lparr>rl_index := rl_index l_ping + Size\<rparr>,
                  (signal_flush
                    ((NewAsync sock0 16 None)\<lparr>writer := (writer (NewAsync sock0 16 None))
                       \<lparr>bw_buf := bw_buf (writer (NewAsync sock0 16 None)) @ [0, 0, 0, 11, 0, 0, 0, 0]\<rparr>\<rparr>))
                  \<lparr>pool := pool (NewAsync sock0 16 None) @ [mk_packet 0 PING 8 []]\<rparr>)"
    by blast
  then have "rl_body l_ping (NewAsync sock0 16 None) =
     Cont (l_ping\<lparr>rl_index := 8\<rparr>,
           (NewAsync sock0 16 None)
           \<lparr>writer := \<lparr> bw_buf = [0, 0, 0, 11, 0, 0, 0, 0], bw_size = 16, bw_err = None \<rparr>,
            flushCh := 1, pool := [mk_packet 0 PING 8 []]\<rparr>)"
    by (simp add: l_ping_def rl_init_def layout_defs signal_flush_def NewAsync_def NewWriterSize_def)
  with parse_ping h c0_healthy show ?thesis by blast
qed

text \<open>
  C2 as stated fails. The buffer holds a PING header with content length 8, its 8 bytes
  of payload and then the header of a frame with id 2 and operation 33. After the PING
  turn \<open>index\<close> is 8, not 16, and the next turn parses the payload as a header: the
  packet delivered to the incoming queue has id 1 and operation 32, which the payload
  bytes spell.
\<close>

theorem C2_ping_payload_not_consumed:
  "rl_parse l_ping = Some (mk_packet 0 PING 8 []) \<and>
   res_index (rl_body l_ping (NewAsync sock0 16 None)) = Some 8 \<and>
   res_index (rl_body l_ping (NewAsync sock0 16 None)) \<noteq> Some (0 + Size + 8) \<and>
   res_incoming (readLoop 2 l_ping (NewAsync sock0 16 None)) = [mk_packet 1 32 0 []]"
proof -
  let ?c1 = "(NewAsync sock0 16 None)
           \<lparr>writer := \<lparr> bw_buf = [0, 0, 0, 11, 0, 0, 0, 0], bw_size = 16, bw_err = None \<rparr>,
            flushCh := 1, pool := [mk_packet 0 PING 8 []]\<rparr>"
  have i: "res_index (rl_body l_ping (NewAsync sock0 16 None)) = Some 8"
    by (simp add: body_ping res_index_def)
  have rf: "\<And>i c. i = 8 \<or> i = 16 \<Longrightarrow>
      rl_refill (l_ping\<lparr>rl_index := i\<rparr>) c = Cont (l_ping\<lparr>rl_index := i\<rparr>, c)"
    by (auto simp: rl_refill_def l_ping_def rl_init_def layout_defs)
  have c1: "rl_index l_ping < rl_n l_ping"
    and c2: "rl_index (l_ping\<lparr>rl_index := 8\<rparr>) < rl_n (l_ping\<lparr>rl_index := 8\<rparr>)"
    by (simp_all add: l_ping_def rl_init_def)
  have "rl_iter l_ping (NewAsync sock0 16 None) = Cont (l_ping\<lparr>rl_index := 8\<rparr>, ?c1)"
    unfolding rl_iter_def body_ping by (simp add: rf)
  with c1 have s1: "rl_step l_ping (NewAsync sock0 16 None) = Cont (l_ping\<lparr>rl_index := 8\<rparr>, ?c1)"
    by (simp only: rl_step_def if_True)
  have p2: "rl_parse (l_ping\<lparr>rl_index := 8\<rparr>) = Some (mk_packet 1 32 0 [])"
    by (simp add: rl_parse_def l_ping_def rl_init_def layout_defs go_slice_def Uint16_def
      Uint32_def packet_Get_def mk_packet_def)
  have b2: "rl_body (l_ping\<lparr>rl_index := 8\<rparr>) ?c1 =
      Cont (l_ping\<lparr>rl_index := 16\<rparr>,
            ?c1\<lparr>incoming := \<lparr> q_items = [mk_packet 1 32 0 []], q_closed = False, q_cap = 16 \<rparr>\<rparr>)"
    unfolding rl_body_parsed [OF p2]
    by (simp add: rl_switch_def mk_packet_def PING_def PONG_def STREAM_def
        rl_default_def rl_payload_def rl_route_def l_ping_def rl_init_def layout_defs
        queue_Push_def NewAsync_def NewCircular_def)
  have "rl_iter (l_ping\<lparr>rl_index := 8\<rparr>) ?c1 =
      Cont (l_ping\<lparr>rl_index := 16\<rparr>,
            ?c1\<lparr>incoming := \<lparr> q_items = [mk_packet 1 32 0 []], q_closed = False, q_cap = 16 \<rparr>\<rparr>)"
    unfolding rl_iter_def b2 by (simp add: rf)
  with c2 have s2: "rl_step (l_ping\<lparr>rl_index := 8\<rparr>) ?c1 =
      Cont (l_ping\<lparr>rl_index := 16\<rparr>,
            ?c1\<lparr>incoming := \<lparr> q_items = [mk_packet 1 32 0 []], q_closed = False, q_cap = 16 \<rparr>\<rparr>)"
    by (simp only: rl_step_def if_True)
  have "readLoop (Suc (Suc 0)) l_ping (NewAsync sock0 16 None) =
      Cont (l_ping\<lparr>rl_index := 16\<rparr>,
            ?c1\<lparr>incoming := \<lparr> q_items = [mk_packet 1 32 0 []], q_closed = False, q_cap = 16 \<rparr>\<rparr>)"
    by (simp only: readLoop.simps s1 s2 res.case prod.case)
  then have r: "res_incoming (readLoop 2 l_ping (NewAsync sock0 16 None)) = [mk_packet 1 32 0 []]"
    by (simp add: res_incoming_def numeral_2_eq_2)
  from parse_ping i r show ?thesis by (simp add: layout_defs)
qed

end
